(* ===== verification/Prelude.thy ===== *)
theory Prelude
  imports Main "HOL-Library.Word" "HOL-Library.Char_ord" "HOL-Library.List_Lexorder"
begin

text \<open>
  Shared vocabulary of the development: the machine integers of the program, the arithmetic of
  Rust's standard library that the program uses on them, its strings, its clock values, and the
  lemma collections the component theories extend.

  Conventions. A \<open>u8\<close>, \<open>u16\<close>, \<open>u64\<close> is a word of that width; \<open>+\<close> on words wraps, which is
  what the release build of the program does on overflow. A \<open>usize\<close> that is the length of
  something held in memory is a \<open>nat\<close> (no allocation reaches \<open>2 ^ 64\<close> bytes); where such a
  length is cast to \<open>u64\<close> the cast is written out. A \<open>String\<close> is its UTF-8 byte sequence, one
  \<open>char\<close> per byte, so the lexicographic order of \<open>string\<close> is the byte order Rust uses for the
  keys of a \<open>BTreeMap<String, _>\<close>.
\<close>

named_theorems map_laws
named_theorems state_defs

type_synonym u8 = "8 word"
type_synonym u16 = "16 word"
type_synonym u32 = "32 word"
type_synonym u64 = "64 word"
type_synonym bytes = "u8 list"

subsection \<open>Saturating arithmetic on words\<close>

definition saturating_sub :: "'l::len word \<Rightarrow> 'l word \<Rightarrow> 'l word" where
  "saturating_sub x y = (if x < y then 0 else x - y)"

definition saturating_add :: "'l::len word \<Rightarrow> 'l word \<Rightarrow> 'l word" where
  "saturating_add x y = (if unat x + unat y < 2 ^ LENGTH('l) then x + y else - 1)"

lemma unat_saturating_sub: "unat (saturating_sub x y) = unat x - unat y"
  by (auto simp: saturating_sub_def word_less_nat_alt unat_sub word_le_nat_alt)

lemma unat_minus_one_word_max: "unat (- 1 :: 'l::len word) = 2 ^ LENGTH('l) - 1"
  by (simp add: unsigned_minus_1_eq_mask mask_eq_exp_minus_1)

lemma unat_saturating_add:
  "unat (saturating_add x (y :: 'l::len word)) = min (unat x + unat y) (2 ^ LENGTH('l) - 1)"
  by (auto simp: saturating_add_def unat_word_ariths unat_minus_one_word_max)

lemma saturating_sub_le [simp]: "saturating_sub x y \<le> x"
  by (simp add: word_le_nat_alt unat_saturating_sub)

text \<open>A length cast with \<open>as u64\<close> and back loses nothing below \<open>2 ^ 64\<close>.\<close>

lemma unat_of_nat_u64: "n < 2 ^ 64 \<Longrightarrow> unat (of_nat n :: u64) = n"
  by (simp add: unat_of_nat take_bit_nat_eq_self)

lemma saturating_sub_Suc:
  assumes "Suc n < 2 ^ 64"
  shows "saturating_sub (of_nat (Suc n)) 1 = (of_nat n :: u64)"
proof -
  have "unat (saturating_sub (of_nat (Suc n) :: u64) 1) = n"
    using assms unat_of_nat_u64 [of "Suc n"] by (simp add: unat_saturating_sub del: of_nat_Suc)
  moreover have "unat (of_nat n :: u64) = n" using assms by (simp add: unat_of_nat_u64)
  ultimately show ?thesis by (simp only: word_unat_eq_iff)
qed

subsection \<open>Clock values\<close>

text \<open>
  An \<open>Instant\<close> is a reading of the monotonic clock, in nanoseconds; a \<open>Duration\<close> is a
  nonnegative span of nanoseconds. \<open>Instant\<close>s before a platform-dependent earliest reading
  \<open>lo\<close> do not exist: \<open>checked_sub\<close> is \<open>None\<close> for them.
\<close>

type_synonym instant = int
type_synonym duration = nat

definition from_millis :: "u64 \<Rightarrow> duration" where
  "from_millis ms = unat ms * 1000000"

definition from_secs :: "u64 \<Rightarrow> duration" where
  "from_secs s = unat s * 1000000000"

definition as_millis :: "duration \<Rightarrow> nat" where
  "as_millis d = d div 1000000"

definition as_secs :: "duration \<Rightarrow> nat" where
  "as_secs d = d div 1000000000"

definition saturating_duration_since :: "instant \<Rightarrow> instant \<Rightarrow> duration" where
  "saturating_duration_since t earlier = nat (t - earlier)"

definition checked_sub :: "instant \<Rightarrow> instant \<Rightarrow> duration \<Rightarrow> instant option" where
  "checked_sub lo t d = (if lo \<le> t - int d then Some (t - int d) else None)"

text \<open>\<open>u64::try_from(n).unwrap_or(u64::MAX)\<close>.\<close>

definition u64_try_from_or_max :: "nat \<Rightarrow> u64" where
  "u64_try_from_or_max n = (if n < 2 ^ 64 then of_nat n else - 1)"

lemma unat_u64_try_from_or_max: "unat (u64_try_from_or_max n) = min n (2 ^ 64 - 1)"
  using unat_minus_one_word_max [where 'l = 64]
  by (auto simp: u64_try_from_or_max_def unat_of_nat_u64)

subsection \<open>Rendering numbers\<close>

text \<open>
  The \<open>Display\<close> form (\<open>{}\<close>, base ten) and the \<open>LowerHex\<close> form (\<open>{:x}\<close>, base sixteen) of an
  unsigned integer, most significant digit first, without leading zeros.
\<close>

definition digit_char :: "nat \<Rightarrow> char" where
  "digit_char d = char_of (if d < 10 then 48 + d else 87 + d)"

definition digit_value :: "char \<Rightarrow> nat" where
  "digit_value c = (if of_char c < (58 :: nat) then of_char c - 48 else of_char c - 87)"

fun show_radix :: "nat \<Rightarrow> nat \<Rightarrow> string" where
  "show_radix b n =
     (if n < b \<or> b < 2 then [digit_char n] else show_radix b (n div b) @ [digit_char (n mod b)])"

declare show_radix.simps [simp del]

abbreviation show_nat :: "nat \<Rightarrow> string" where
  "show_nat \<equiv> show_radix 10"

abbreviation show_hex :: "nat \<Rightarrow> string" where
  "show_hex \<equiv> show_radix 16"

definition radix_value :: "nat \<Rightarrow> string \<Rightarrow> nat" where
  "radix_value b cs = foldl (\<lambda>a c. b * a + digit_value c) 0 cs"

lemma digit_value_digit_char: "d < 16 \<Longrightarrow> digit_value (digit_char d) = d"
  by (simp add: digit_value_def digit_char_def)

lemma radix_value_snoc: "radix_value b (cs @ [c]) = b * radix_value b cs + digit_value c"
  by (simp add: radix_value_def)

lemma radix_value_show_radix:
  assumes "2 \<le> b" and "b \<le> 16"
  shows "radix_value b (show_radix b n) = n"
  using assms
proof (induction b n rule: show_radix.induct)
  case (1 b n)
  show ?case
  proof (cases "n < b")
    case True
    with "1.prems" show ?thesis
      by (subst show_radix.simps) (simp add: radix_value_def digit_value_digit_char)
  next
    case False
    have "n mod b < 16"
      using "1.prems" by (meson less_le_trans mod_less_divisor less_le_trans zero_less_numeral)
    with False 1 show ?thesis
      by (subst show_radix.simps) (simp add: radix_value_snoc digit_value_digit_char)
  qed
qed

lemma show_radix_inject:
  "2 \<le> b \<Longrightarrow> b \<le> 16 \<Longrightarrow> show_radix b m = show_radix b n \<longleftrightarrow> m = n"
  by (metis radix_value_show_radix)

lemma show_radix_digits:
  "2 \<le> b \<Longrightarrow> c \<in> set (show_radix b n) \<Longrightarrow> \<exists>d < b. c = digit_char d"
proof (induction b n rule: show_radix.induct)
  case (1 b n)
  have "n mod b < b" using "1.prems" by simp
  with 1 show ?case
    by (subst (asm) (2) show_radix.simps) (auto split: if_splits intro: exI [of _ "n mod b"])
qed

lemma show_radix_neq_Nil [simp]: "show_radix b n \<noteq> []"
  by (subst show_radix.simps) simp

text \<open>A character that is no digit does not occur in a rendered number.\<close>

lemma of_char_digit_char: "d < 16 \<Longrightarrow> (of_char (digit_char d) :: nat) = (if d < 10 then 48 + d else 87 + d)"
  by (simp add: digit_char_def)

lemma show_nat_digit: "c \<in> set (show_nat n) \<Longrightarrow> 48 \<le> (of_char c :: nat) \<and> (of_char c :: nat) < 58"
  using show_radix_digits [of 10 c n] by (auto simp: of_char_digit_char)

lemma show_nat_no_sep [simp]:
  "CHR ''.'' \<notin> set (show_nat n)" "CHR '':'' \<notin> set (show_nat n)" "CHR ''['' \<notin> set (show_nat n)"
  using show_nat_digit by fastforce+

subsection \<open>Splitting a list at a separator\<close>

text \<open>Two lists that agree up to the first separator agree on both sides of it.\<close>

lemma append_sep_eqD:
  assumes "xs @ c # ys = xs' @ c # ys'" and "c \<notin> set xs" and "c \<notin> set xs'"
  shows "xs = xs' \<and> ys = ys'"
  using assms
proof (induction xs arbitrary: xs')
  case Nil
  then show ?case by (cases xs') auto
next
  case (Cons x xs)
  then show ?case by (cases xs') auto
qed

text \<open>\<open>split(c)\<close>: the pieces between the separators, at least one.\<close>

fun split_on :: "'a \<Rightarrow> 'a list \<Rightarrow> 'a list list" where
  "split_on c [] = [[]]"
| "split_on c (x # xs) =
     (if x = c then [] # split_on c xs
      else (case split_on c xs of [] \<Rightarrow> [[x]] | p # ps \<Rightarrow> (x # p) # ps))"

fun join_with :: "'a \<Rightarrow> 'a list list \<Rightarrow> 'a list" where
  "join_with c [] = []"
| "join_with c [p] = p"
| "join_with c (p # ps) = p @ c # join_with c ps"

lemma split_on_neq_Nil [simp]: "split_on c xs \<noteq> []"
  by (cases xs) (auto split: list.split)

lemma join_split_on [simp]: "join_with c (split_on c xs) = xs"
proof (induction xs)
  case (Cons x xs)
  obtain p ps where "split_on c xs = p # ps" by (cases "split_on c xs") auto
  with Cons show ?case by (cases ps) auto
qed simp

lemma split_on_no_sep: "p \<in> set (split_on c xs) \<Longrightarrow> c \<notin> set p"
  by (induction xs arbitrary: p) (auto split: if_splits list.splits)

subsection \<open>Event-driven components\<close>

text \<open>
  Every stateful part of the program is driven by a sequence of events (observations, stream
  frames, keys). What each of them relies on is the same: its handler keeps an invariant, hence
  so does every run.
\<close>

locale preserved_by_steps =
  fixes step :: "'e \<Rightarrow> 's \<Rightarrow> 's"
    and inv :: "'s \<Rightarrow> bool"
  assumes step_inv: "inv s \<Longrightarrow> inv (step e s)"
begin

lemma run_inv: "inv s \<Longrightarrow> inv (fold step es s)"
  by (induction es arbitrary: s) (simp_all add: step_inv)

end

locale event_machine = preserved_by_steps +
  fixes start :: 's
  assumes start_inv: "inv start"
begin

lemma reachable_inv: "inv (fold step es start)"
  using start_inv by (rule run_inv)

end

text \<open>
  A component refines a specification when an abstraction function turns its steps into the steps
  of the specification; runs then correspond to runs.
\<close>

locale step_refinement =
  fixes step :: "'e \<Rightarrow> 's \<Rightarrow> 's"
    and spec_step :: "'e \<Rightarrow> 'a \<Rightarrow> 'a"
    and abs :: "'s \<Rightarrow> 'a"
    and inv :: "'s \<Rightarrow> bool"
  assumes sim: "inv s \<Longrightarrow> abs (step e s) = spec_step e (abs s)"
    and sim_inv: "inv s \<Longrightarrow> inv (step e s)"
begin

lemma run_sim: "inv s \<Longrightarrow> abs (fold step es s) = fold spec_step es (abs s)"
  by (induction es arbitrary: s) (simp_all add: sim sim_inv)

end

end
