(* ===== verification/Ordered_Map.thy ===== *)
theory Ordered_Map
  imports Prelude
begin

text \<open>
  The \<open>BTreeMap\<close> of Rust's standard library: a finite map iterated in key order. The program
  keeps all its state in such maps and iterates over them to count, to sum, to send and to draw.
  The model is the list of its entries in ascending key order, with the operations the program
  calls; the locale states the contract those operations promise.
\<close>

type_synonym ('k, 'v) btree_map = "('k \<times> 'v) list"

definition bt_wf :: "('k::linorder, 'v) btree_map \<Rightarrow> bool" where
  "bt_wf m \<longleftrightarrow> sorted_wrt (<) (map fst m)"

fun bt_insert :: "'k::linorder \<Rightarrow> 'v \<Rightarrow> ('k, 'v) btree_map \<Rightarrow> ('k, 'v) btree_map" where
  "bt_insert k v [] = [(k, v)]"
| "bt_insert k v (e # m) =
     (if k = fst e then (k, v) # m
      else if k < fst e then (k, v) # e # m
      else e # bt_insert k v m)"

abbreviation bt_get :: "('k, 'v) btree_map \<Rightarrow> 'k \<Rightarrow> 'v option" where
  "bt_get \<equiv> map_of"

text \<open>
  \<open>m.entry(k).or_insert(d)\<close> (or \<open>or_default()\<close>) returns a mutable reference; what the caller
  then does to the value is the function \<open>f\<close>.
\<close>

definition bt_upsert ::
  "'k::linorder \<Rightarrow> 'v \<Rightarrow> ('v \<Rightarrow> 'v) \<Rightarrow> ('k, 'v) btree_map \<Rightarrow> ('k, 'v) btree_map" where
  "bt_upsert k d f m = bt_insert k (f (case bt_get m k of None \<Rightarrow> d | Some v \<Rightarrow> v)) m"

text \<open>\<open>values_mut()\<close> with an assignment to each value.\<close>

definition bt_map :: "('k \<Rightarrow> 'v \<Rightarrow> 'w) \<Rightarrow> ('k, 'v) btree_map \<Rightarrow> ('k, 'w) btree_map" where
  "bt_map f m = map (\<lambda>(k, v). (k, f k v)) m"

definition bt_values :: "('k, 'v) btree_map \<Rightarrow> 'v list" where
  "bt_values m = map snd m"

subsection \<open>The contract\<close>

locale ordered_map =
  fixes empty :: "'m"
    and insert :: "'k::linorder \<Rightarrow> 'v \<Rightarrow> 'm \<Rightarrow> 'm"
    and get :: "'m \<Rightarrow> 'k \<Rightarrow> 'v option"
    and entries :: "'m \<Rightarrow> ('k \<times> 'v) list"
    and wf :: "'m \<Rightarrow> bool"
  assumes wf_empty: "wf empty"
    and wf_insert: "wf m \<Longrightarrow> wf (insert k v m)"
    and get_empty: "get empty k = None"
    and get_insert: "wf m \<Longrightarrow> get (insert k v m) k' = (if k' = k then Some v else get m k')"
    and entries_get: "wf m \<Longrightarrow> (k, v) \<in> set (entries m) \<longleftrightarrow> get m k = Some v"
    and entries_sorted: "wf m \<Longrightarrow> sorted_wrt (<) (map fst (entries m))"
begin

lemma distinct_keys: "wf m \<Longrightarrow> distinct (map fst (entries m))"
  using entries_sorted strict_sorted_iff by blast

lemma keys_eq_dom: "wf m \<Longrightarrow> fst ` set (entries m) = dom (get m)"
  by (auto simp: set_eq_iff image_iff Bex_def entries_get)

lemma entries_via_get:
  assumes "wf m"
  shows "entries m = map (\<lambda>k. (k, the (get m k))) (map fst (entries m))"
proof -
  have "(fst e, the (get m (fst e))) = e" if "e \<in> set (entries m)" for e
    using assms that entries_get [of m "fst e" "snd e"] by simp
  then show ?thesis by (simp add: map_idI)
qed

text \<open>An ordered map is determined by what lookups return.\<close>

lemma entries_ext:
  assumes "wf m" and "wf m'" and "get m = get m'"
  shows "entries m = entries m'"
proof -
  have "set (map fst (entries m)) = set (map fst (entries m'))"
    using assms by (simp add: keys_eq_dom)
  then have keys: "map fst (entries m) = map fst (entries m')"
    using assms by (intro strict_sorted_equal) (auto simp: entries_sorted)
  have "entries m = map (\<lambda>k. (k, the (get m k))) (map fst (entries m))"
    using assms(1) by (rule entries_via_get)
  also have "\<dots> = map (\<lambda>k. (k, the (get m' k))) (map fst (entries m'))"
    using keys assms(3) by simp
  also have "\<dots> = entries m'"
    using assms(2) by (rule entries_via_get [symmetric])
  finally show ?thesis .
qed

text \<open>Counting entries that satisfy a predicate is counting keys.\<close>

lemma count_entries:
  assumes "wf m"
  shows "length (filter (\<lambda>e. P (fst e) (snd e)) (entries m)) =
    card {k. \<exists>v. get m k = Some v \<and> P k v}"
proof -
  let ?xs = "filter (\<lambda>e. P (fst e) (snd e)) (entries m)"
  have "distinct (map fst ?xs)"
    using distinct_keys [OF assms] by (rule distinct_map_filter)
  then have "length ?xs = card (fst ` set ?xs)"
    by (metis distinct_card length_map set_map)
  also have "fst ` set ?xs = {k. \<exists>v. get m k = Some v \<and> P k v}"
    using entries_get [OF assms] by (auto simp: image_iff Bex_def)
  finally show ?thesis .
qed

lemma insert_commute:
  assumes "wf m" and "k \<noteq> k'"
  shows "entries (insert k v (insert k' v' m)) = entries (insert k' v' (insert k v m))"
  using assms by (intro entries_ext) (auto simp: wf_insert get_insert)

end

subsection \<open>The sorted entry list keeps the contract\<close>

lemma bt_wf_Nil [simp]: "bt_wf []"
  by (simp add: bt_wf_def)

lemma bt_wf_Cons: "bt_wf (e # m) \<longleftrightarrow> (\<forall>k \<in> fst ` set m. fst e < k) \<and> bt_wf m"
  by (auto simp: bt_wf_def)

lemma fst_set_bt_insert: "fst ` set (bt_insert k v m) = insert k (fst ` set m)"
  by (induction m) auto

lemma bt_wf_insert [map_laws, intro]: "bt_wf m \<Longrightarrow> bt_wf (bt_insert k v m)"
  by (induction m) (auto simp: bt_wf_Cons fst_set_bt_insert)

lemma bt_get_insert [map_laws]: "bt_get (bt_insert k v m) k' = (if k' = k then Some v else bt_get m k')"
  by (induction m) auto

lemma bt_wf_distinct: "bt_wf m \<Longrightarrow> distinct (map fst m)"
  by (simp add: bt_wf_def strict_sorted_iff)

lemma bt_get_mem: "bt_wf m \<Longrightarrow> (k, v) \<in> set m \<longleftrightarrow> bt_get m k = Some v"
  by (simp add: bt_wf_distinct)

lemma bt_wf_sorted: "bt_wf m \<Longrightarrow> sorted_wrt (<) (map fst m)"
  by (simp add: bt_wf_def)

interpretation bt: ordered_map "[]" bt_insert map_of "\<lambda>m. m" bt_wf
  by unfold_locales (auto simp: bt_get_insert bt_get_mem intro: bt_wf_sorted bt_wf_insert)

lemma bt_ext: "bt_wf m \<Longrightarrow> bt_wf m' \<Longrightarrow> bt_get m = bt_get m' \<Longrightarrow> m = m'"
  by (rule bt.entries_ext)

lemma bt_count:
  assumes "bt_wf m"
  shows "length (filter P (bt_values m)) = card {k. \<exists>v. bt_get m k = Some v \<and> P v}"
  using bt.count_entries [OF assms, of "\<lambda>_. P"]
  by (simp add: bt_values_def filter_map comp_def)

lemma bt_insert_commute:
  "bt_wf m \<Longrightarrow> k \<noteq> k' \<Longrightarrow> bt_insert k v (bt_insert k' v' m) = bt_insert k' v' (bt_insert k v m)"
  by (rule bt.insert_commute)

subsection \<open>Derived operations\<close>

lemma bt_wf_upsert [map_laws, intro]: "bt_wf m \<Longrightarrow> bt_wf (bt_upsert k d f m)"
  by (auto simp: bt_upsert_def)

lemma bt_get_upsert [map_laws]:
  "bt_get (bt_upsert k d f m) k' =
     (if k' = k then Some (f (case bt_get m k of None \<Rightarrow> d | Some v \<Rightarrow> v)) else bt_get m k')"
  by (simp add: bt_upsert_def bt_get_insert)

lemma bt_map_simps [simp]:
  "bt_map f [] = []"
  "bt_map f (e # m) = (fst e, f (fst e) (snd e)) # bt_map f m"
  by (simp_all add: bt_map_def split: prod.split)

lemma map_fst_bt_map [simp]: "map fst (bt_map f m) = map fst m"
  by (induction m) auto

lemma bt_wf_map [map_laws, simp]: "bt_wf (bt_map f m) = bt_wf m"
  by (simp add: bt_wf_def)

lemma bt_get_map [map_laws]: "bt_get (bt_map f m) k = map_option (f k) (bt_get m k)"
  by (induction m) auto

lemma bt_map_ident: "(\<And>k v. (k, v) \<in> set m \<Longrightarrow> f k v = v) \<Longrightarrow> bt_map f m = m"
  by (induction m) auto

lemma bt_values_simps [simp]:
  "bt_values [] = []" "bt_values (e # m) = snd e # bt_values m"
  by (simp_all add: bt_values_def)

text \<open>
  Sums over a map, as the statistics panel and the accounting invariants take them: one upsert
  changes the sum by the difference at its key.
\<close>

definition bt_sum :: "('v \<Rightarrow> 'a::comm_monoid_add) \<Rightarrow> ('k, 'v) btree_map \<Rightarrow> 'a" where
  "bt_sum g m = sum_list (map g (bt_values m))"

lemma bt_sum_simps [simp]:
  "bt_sum g [] = 0" "bt_sum g (e # m) = g (snd e) + bt_sum g m"
  by (simp_all add: bt_sum_def)

lemma bt_sum_insert:
  fixes g :: "'v \<Rightarrow> 'a::ab_group_add"
  assumes "bt_wf m"
  shows "bt_sum g (bt_insert k v m) =
    bt_sum g m + g v - (case bt_get m k of None \<Rightarrow> 0 | Some w \<Rightarrow> g w)"
  using assms
proof (induction m)
  case (Cons e m)
  show ?case
  proof (cases "k < fst e")
    case True
    with Cons.prems have "bt_get m k = None"
      by (auto simp: bt_wf_Cons map_of_eq_None_iff)
    with True show ?thesis by (auto simp: algebra_simps)
  next
    case False
    with Cons show ?thesis by (auto simp: algebra_simps bt_wf_Cons)
  qed
qed simp

lemma bt_sum_upsert:
  fixes g :: "'v \<Rightarrow> 'a::ab_group_add"
  assumes "bt_wf m" and "g d = 0"
  shows "bt_sum g (bt_upsert k d f m) =
    bt_sum g m + (let w = (case bt_get m k of None \<Rightarrow> d | Some w \<Rightarrow> w) in g (f w) - g w)"
  using assms by (simp add: bt_upsert_def bt_sum_insert algebra_simps split: option.split)

lemma bt_sum_map: "(\<And>k v. g (f k v) = g v) \<Longrightarrow> bt_sum g (bt_map f m) = bt_sum g m"
  by (induction m) auto

end
