(* ===== verification/Events.thy ===== *)
theory Events
  imports Ordered_Map
begin

text \<open>
  \<^verbatim>\<open>src/observe/events.rs\<close>: the observations the proxy and the poller emit, the identity key of a
  peer, and the sink that hands observations to the state owner without ever blocking.
\<close>

subsection \<open>Observations\<close>

record PublishedMessage =
  pm_data :: bytes
  pm_attributes :: "(string \<times> string) list"
  pm_original_len :: nat
  pm_truncated :: bool

record SubscriptionInfo =
  si_name :: string
  si_topic :: string

text \<open>
  A \<open>SocketAddr\<close>: an IPv4 address and port, or the eight segments of an IPv6 address, its port,
  its flow label and its scope.
\<close>

datatype socket_addr =
    V4 u8 u8 u8 u8 u16
  | V6 "u16 list" u16 u32 u32

datatype observation =
    Publish string "socket_addr option" "PublishedMessage list"
  | Deliver string "socket_addr option" u64
  | Ack string "socket_addr option" u64
  | ConsumerOpen string "socket_addr option"
  | ConsumerClose string "socket_addr option"
  | AdminSnapshot "string list" "SubscriptionInfo list"

subsection \<open>The identity key of a peer\<close>

text \<open>
  The standard library's \<open>Display\<close> of a \<open>SocketAddr\<close>: a dotted quad, or the segments in
  lowercase hexadecimal with the first longest run of two or more zero segments written \<open>::\<close>.
\<close>

definition show_ipv4 :: "u8 \<Rightarrow> u8 \<Rightarrow> u8 \<Rightarrow> u8 \<Rightarrow> string" where
  "show_ipv4 a b c d =
     show_nat (unat a) @ ''.'' @ show_nat (unat b) @ ''.'' @ show_nat (unat c) @ ''.'' @ show_nat (unat d)"

fun longest_zero_span ::
  "nat \<Rightarrow> u16 list \<Rightarrow> nat \<times> nat \<Rightarrow> nat \<times> nat \<Rightarrow> nat \<times> nat" where
  "longest_zero_span i [] current longest = longest"
| "longest_zero_span i (s # ss) current longest =
     (if s = 0
      then (let current = (if snd current = 0 then (i, 1) else (fst current, snd current + 1))
            in longest_zero_span (i + 1) ss current
                 (if snd current > snd longest then current else longest))
      else longest_zero_span (i + 1) ss (0, 0) longest)"

fun show_segments :: "u16 list \<Rightarrow> string" where
  "show_segments [] = ''''"
| "show_segments [s] = show_hex (unat s)"
| "show_segments (s # ss) = show_hex (unat s) @ '':'' @ show_segments ss"

definition show_ipv6 :: "u16 list \<Rightarrow> string" where
  "show_ipv6 segments =
     (if length segments = 8 \<and> take 6 segments = [0, 0, 0, 0, 0, 0xffff]
      then ''::ffff:'' @ show_ipv4 (ucast (drop_bit 8 (segments ! 6))) (ucast (segments ! 6))
                           (ucast (drop_bit 8 (segments ! 7))) (ucast (segments ! 7))
      else (let (start, n) = longest_zero_span 0 segments (0, 0) (0, 0)
            in if n > 1
               then show_segments (take start segments) @ ''::'' @ show_segments (drop (start + n) segments)
               else show_segments segments))"

fun show_socket_addr :: "socket_addr \<Rightarrow> string" where
  "show_socket_addr (V4 a b c d port) = show_ipv4 a b c d @ '':'' @ show_nat (unat port)"
| "show_socket_addr (V6 segments port flowinfo scope) =
     (if scope = 0
      then ''['' @ show_ipv6 segments @ '']:'' @ show_nat (unat port)
      else ''['' @ show_ipv6 segments @ ''%'' @ show_nat (unat scope) @ '']:'' @ show_nat (unat port))"

definition peer_key :: "socket_addr option \<Rightarrow> string" where
  "peer_key peer = (case peer of None \<Rightarrow> ''unknown'' | Some addr \<Rightarrow> show_socket_addr addr)"

lemma show_ipv4_inject:
  "show_ipv4 a b c d = show_ipv4 a' b' c' d' \<longleftrightarrow> a = a' \<and> b = b' \<and> c = c' \<and> d = d'"
  unfolding show_ipv4_def
  by (auto dest!: append_sep_eqD simp: show_radix_inject unsigned_word_eqI)

lemma show_ipv4_chars: "x \<in> set (show_ipv4 a b c d) \<Longrightarrow> x = CHR ''.'' \<or> (48 \<le> (of_char x :: nat) \<and> (of_char x :: nat) < 58)"
  by (auto simp: show_ipv4_def dest: show_nat_digit)

lemma show_ipv4_no_colon: "CHR '':'' \<notin> set (show_ipv4 a b c d)"
  using show_ipv4_chars by fastforce

lemma show_socket_addr_has_colon: "CHR '':'' \<in> set (show_socket_addr addr)"
  by (cases addr) auto

text \<open>
  Publishers are keyed by peer address: two IPv4 peers have the same identity key exactly
  when they are the same address and port, so the monitor never merges two IPv4 publishers.
\<close>

theorem peer_key_v4_inject:
  "peer_key (Some (V4 a b c d p)) = peer_key (Some (V4 a' b' c' d' p')) \<longleftrightarrow>
     (a, b, c, d, p) = (a', b', c', d', p')"
  by (auto simp: peer_key_def show_ipv4_inject show_radix_inject unsigned_word_eqI
      dest!: append_sep_eqD [OF _ show_ipv4_no_colon show_ipv4_no_colon])

lemma peer_key_unknown: "peer_key (Some addr) \<noteq> peer_key None"
  using show_socket_addr_has_colon [of addr] by (auto simp: peer_key_def)

subsection \<open>The observation sink\<close>

text \<open>
  The sink wraps the sending half of a bounded first-in first-out channel. The contract of such a
  channel is the locale: a value is appended when there is room and the receiver is alive, and is
  otherwise refused with the channel unchanged; values leave in the order they entered.
\<close>

locale bounded_channel =
  fixes items :: "'c \<Rightarrow> 'a list"
    and capacity :: "'c \<Rightarrow> nat"
    and alive :: "'c \<Rightarrow> bool"
    and send :: "'a \<Rightarrow> 'c \<Rightarrow> 'c"
    and recv :: "'c \<Rightarrow> ('a \<times> 'c) option"
  assumes send_accept: "alive c \<Longrightarrow> length (items c) < capacity c \<Longrightarrow> items (send x c) = items c @ [x]"
    and send_refuse: "\<not> (alive c \<and> length (items c) < capacity c) \<Longrightarrow> send x c = c"
    and send_frame: "capacity (send x c) = capacity c" "alive (send x c) = alive c"
    and recv_None: "recv c = None \<longleftrightarrow> items c = []"
    and recv_Some: "recv c = Some (x, c') \<Longrightarrow>
      items c = x # items c' \<and> capacity c' = capacity c \<and> alive c' = alive c"
begin

lemma send_all_frame:
  "capacity (fold send xs c) = capacity c \<and> alive (fold send xs c) = alive c"
  by (induction xs arbitrary: c) (simp_all add: send_frame)

lemma send_all_closed: "\<not> alive c \<Longrightarrow> fold send xs c = c"
  by (induction xs) (simp_all add: send_refuse)

text \<open>Between two receives the channel keeps the earliest values and refuses the rest.\<close>

lemma send_all_items:
  "alive c \<Longrightarrow> length (items c) \<le> capacity c \<Longrightarrow>
     items (fold send xs c) = items c @ take (capacity c - length (items c)) xs"
proof (induction xs arbitrary: c)
  case (Cons x xs)
  show ?case
  proof (cases "length (items c) < capacity c")
    case True
    with Cons.prems Cons.IH [of "send x c"] show ?thesis
      by (simp add: send_accept send_frame take_Cons' Suc_le_eq)
  next
    case False
    with Cons.prems have "capacity c - length (items c) = 0" by simp
    with False Cons.prems Cons.IH [of c] show ?thesis by (simp add: send_refuse)
  qed
qed simp

lemma send_bounded: "length (items c) \<le> capacity c \<Longrightarrow> length (items (send x c)) \<le> capacity c"
  by (cases "alive c \<and> length (items c) < capacity c") (auto simp: send_accept send_refuse)

lemma recv_bounded:
  "recv c = Some (x, c') \<Longrightarrow> length (items c) \<le> capacity c \<Longrightarrow> length (items c') \<le> capacity c'"
  by (drule recv_Some) simp

end

record 'a channel =
  ch_queue :: "'a list"
  ch_capacity :: nat
  ch_receiver_alive :: bool

definition channel_new :: "nat \<Rightarrow> 'a channel" where
  "channel_new n = \<lparr>ch_queue = [], ch_capacity = n, ch_receiver_alive = True\<rparr>"

definition try_send :: "'a \<Rightarrow> 'a channel \<Rightarrow> 'a channel \<times> bool" where
  "try_send x ch =
     (if ch_receiver_alive ch \<and> length (ch_queue ch) < ch_capacity ch
      then (ch\<lparr>ch_queue := ch_queue ch @ [x]\<rparr>, True) else (ch, False))"

definition try_recv :: "'a channel \<Rightarrow> ('a \<times> 'a channel) option" where
  "try_recv ch = (case ch_queue ch of [] \<Rightarrow> None | x # xs \<Rightarrow> Some (x, ch\<lparr>ch_queue := xs\<rparr>))"

text \<open>\<open>ObservationSink::observe\<close>: a refused send is traced and otherwise ignored.\<close>

definition observe :: "observation \<Rightarrow> observation channel \<Rightarrow> observation channel" where
  "observe obs ch = (case try_send obs ch of (ch', sent) \<Rightarrow> ch')"

interpretation sink: bounded_channel ch_queue ch_capacity ch_receiver_alive observe try_recv
  by unfold_locales (auto simp: observe_def try_send_def try_recv_def split: list.splits)

text \<open>
  The sink never blocks and never reorders: a burst of observations sent between two
  receives is kept in order up to the free capacity of the channel, and exactly the overflow is
  dropped.
\<close>

theorem observe_burst_keeps_prefix:
  assumes "ch_receiver_alive ch" and "length (ch_queue ch) \<le> ch_capacity ch"
  shows "ch_queue (fold observe burst ch) =
    ch_queue ch @ take (ch_capacity ch - length (ch_queue ch)) burst"
  using assms by (rule sink.send_all_items)

theorem observe_burst_keeps_prefix_witness:
  "ch_queue (fold observe [ConsumerOpen ''a'' None, ConsumerOpen ''b'' None] (channel_new 1))
     = [ConsumerOpen ''a'' None]"
  using observe_burst_keeps_prefix [of "channel_new 1" "[ConsumerOpen ''a'' None, ConsumerOpen ''b'' None]"]
  by (simp add: channel_new_def)

end
