(* ===== verification/State.thy ===== *)
theory State
  imports Events
begin

text \<open>
  \<^verbatim>\<open>src/observe/state.rs\<close>, first part: the application state, the folding of one observation into
  it, and the figures read off it. The task that owns the state is the theory Observer.
\<close>

subsection \<open>The state\<close>

definition PUBLISHER_ACTIVE_WINDOW :: duration where
  "PUBLISHER_ACTIVE_WINDOW = from_secs 10"

record Publisher =
  published :: u64
  last_seen :: instant

record Topic =
  topic_exists :: bool
  publish_count :: u64
  publishers :: "(string, Publisher) btree_map"

record Subscription =
  sub_exists :: bool
  sub_topic :: "string option"
  delivered :: u64
  acked :: u64
  live_consumers :: u64

record RecentMessage =
  rm_seq :: u64
  rm_topic :: string
  rm_data :: bytes
  rm_attributes :: "(string \<times> string) list"
  rm_original_len :: nat
  rm_truncated :: bool
  rm_seen :: instant

record AppState =
  topics :: "(string, Topic) btree_map"
  subscriptions :: "(string, Subscription) btree_map"
  recent_messages :: "RecentMessage list"
  recent_buffer_capacity :: nat
  next_seq :: u64

text \<open>The derived \<open>Default\<close> values.\<close>

definition default_topic :: Topic where
  "default_topic = \<lparr>topic_exists = False, publish_count = 0, publishers = []\<rparr>"

definition default_subscription :: Subscription where
  "default_subscription =
     \<lparr>sub_exists = False, sub_topic = None, delivered = 0, acked = 0, live_consumers = 0\<rparr>"

definition default_state :: AppState where
  "default_state = \<lparr>topics = [], subscriptions = [], recent_messages = [],
     recent_buffer_capacity = 0, next_seq = 0\<rparr>"

lemmas [state_defs] = default_topic_def default_subscription_def default_state_def

subsection \<open>Folding one observation\<close>

text \<open>
  \<open>topic_mut\<close> and \<open>subscription_mut\<close> return a mutable reference to an entry, created on
  demand; the function argument is what the caller does through the reference.
\<close>

definition topic_mut :: "string \<Rightarrow> (Topic \<Rightarrow> Topic) \<Rightarrow> AppState \<Rightarrow> AppState" where
  "topic_mut name f st = st\<lparr>topics := bt_upsert name default_topic f (topics st)\<rparr>"

definition subscription_mut :: "string \<Rightarrow> (Subscription \<Rightarrow> Subscription) \<Rightarrow> AppState \<Rightarrow> AppState" where
  "subscription_mut name f st =
     st\<lparr>subscriptions := bt_upsert name default_subscription f (subscriptions st)\<rparr>"

definition push_recent :: "string \<Rightarrow> PublishedMessage \<Rightarrow> instant \<Rightarrow> AppState \<Rightarrow> AppState" where
  "push_recent topic message now st =
     (let seq = next_seq st;
          st = st\<lparr>next_seq := seq + 1\<rparr>
      in st\<lparr>recent_messages := recent_messages st @
           [\<lparr>rm_seq = seq, rm_topic = topic, rm_data = pm_data message,
             rm_attributes = pm_attributes message, rm_original_len = pm_original_len message,
             rm_truncated = pm_truncated message, rm_seen = now\<rparr>]\<rparr>)"

text \<open>The loop of \<open>trim_recent\<close>: pop the front while more than \<open>cap\<close> messages remain.\<close>

fun pop_while_over :: "nat \<Rightarrow> 'a list \<Rightarrow> 'a list" where
  "pop_while_over cap [] = []"
| "pop_while_over cap (x # xs) =
     (if length (x # xs) > cap then pop_while_over cap xs else x # xs)"

definition trim_recent :: "nat \<Rightarrow> AppState \<Rightarrow> AppState" where
  "trim_recent cap st = st\<lparr>recent_messages := pop_while_over cap (recent_messages st)\<rparr>"

definition record_publish :: "socket_addr option \<Rightarrow> u64 \<Rightarrow> instant \<Rightarrow> Topic \<Rightarrow> Topic" where
  "record_publish peer count now entry =
     (let entry = entry\<lparr>publish_count := publish_count entry + count\<rparr>
      in entry\<lparr>publishers :=
           bt_upsert (peer_key peer) \<lparr>published = 0, last_seen = now\<rparr>
             (\<lambda>publisher. (publisher\<lparr>published := published publisher + count\<rparr>)\<lparr>last_seen := now\<rparr>)
             (publishers entry)\<rparr>)"

definition apply_publish ::
  "string \<Rightarrow> socket_addr option \<Rightarrow> PublishedMessage list \<Rightarrow> instant \<Rightarrow> AppState \<Rightarrow> AppState" where
  "apply_publish topic peer messages now st =
     (let count = of_nat (length messages);
          st = topic_mut topic (record_publish peer count now) st
      in fold (\<lambda>message. push_recent topic message now) messages st)"

definition apply_admin :: "string list \<Rightarrow> SubscriptionInfo list \<Rightarrow> AppState \<Rightarrow> AppState" where
  "apply_admin names infos st =
     (let st = st\<lparr>topics := bt_map (\<lambda>_ t. t\<lparr>topic_exists := False\<rparr>) (topics st)\<rparr>;
          st = fold (\<lambda>name. topic_mut name (\<lambda>t. t\<lparr>topic_exists := True\<rparr>)) names st;
          st = st\<lparr>subscriptions := bt_map (\<lambda>_ s. s\<lparr>sub_exists := False\<rparr>) (subscriptions st)\<rparr>
      in fold (\<lambda>info. subscription_mut (si_name info)
                (\<lambda>s. s\<lparr>sub_exists := True, sub_topic := Some (si_topic info)\<rparr>)) infos st)"

fun apply_obs :: "observation \<Rightarrow> instant \<Rightarrow> AppState \<Rightarrow> AppState" where
  "apply_obs (Publish topic peer messages) now st = apply_publish topic peer messages now st"
| "apply_obs (Deliver subscription peer messages) now st =
     subscription_mut subscription (\<lambda>s. s\<lparr>delivered := delivered s + messages\<rparr>) st"
| "apply_obs (Ack subscription peer messages) now st =
     subscription_mut subscription (\<lambda>s. s\<lparr>acked := acked s + messages\<rparr>) st"
| "apply_obs (ConsumerOpen subscription peer) now st =
     subscription_mut subscription (\<lambda>s. s\<lparr>live_consumers := live_consumers s + 1\<rparr>) st"
| "apply_obs (ConsumerClose subscription peer) now st =
     subscription_mut subscription (\<lambda>s. s\<lparr>live_consumers := saturating_sub (live_consumers s) 1\<rparr>) st"
| "apply_obs (AdminSnapshot names infos) now st = apply_admin names infos st"

subsection \<open>Figures read off the state\<close>

definition topic_count :: "AppState \<Rightarrow> nat" where
  "topic_count st = length (filter topic_exists (bt_values (topics st)))"

definition connected_publishers :: "AppState \<Rightarrow> instant \<Rightarrow> nat" where
  "connected_publishers st now =
     length (filter (\<lambda>p. saturating_duration_since now (last_seen p) \<le> PUBLISHER_ACTIVE_WINDOW)
       (concat (map (\<lambda>t. bt_values (publishers t)) (bt_values (topics st)))))"

definition connected_consumers :: "AppState \<Rightarrow> u64" where
  "connected_consumers st = bt_sum live_consumers (subscriptions st)"

definition active_consumers_of :: "AppState \<Rightarrow> string \<Rightarrow> (string \<times> Subscription) list" where
  "active_consumers_of st topic =
     filter (\<lambda>(_, s). sub_topic s = Some topic \<and> acked s > 0) (subscriptions st)"

subsection \<open>Frames\<close>

lemma topic_mut_frame [simp]:
  "subscriptions (topic_mut n f st) = subscriptions st"
  "recent_messages (topic_mut n f st) = recent_messages st"
  "recent_buffer_capacity (topic_mut n f st) = recent_buffer_capacity st"
  "next_seq (topic_mut n f st) = next_seq st"
  "topics (topic_mut n f st) = bt_upsert n default_topic f (topics st)"
  by (simp_all add: topic_mut_def)

lemma subscription_mut_frame [simp]:
  "topics (subscription_mut n f' st) = topics st"
  "recent_messages (subscription_mut n f' st) = recent_messages st"
  "recent_buffer_capacity (subscription_mut n f' st) = recent_buffer_capacity st"
  "next_seq (subscription_mut n f' st) = next_seq st"
  "subscriptions (subscription_mut n f' st) = bt_upsert n default_subscription f' (subscriptions st)"
  by (simp_all add: subscription_mut_def)

text \<open>The messages one publish appends, with their sequence numbers.\<close>

fun stamped :: "string \<Rightarrow> instant \<Rightarrow> u64 \<Rightarrow> PublishedMessage list \<Rightarrow> RecentMessage list" where
  "stamped topic now seq [] = []"
| "stamped topic now seq (m # ms) =
     \<lparr>rm_seq = seq, rm_topic = topic, rm_data = pm_data m, rm_attributes = pm_attributes m,
      rm_original_len = pm_original_len m, rm_truncated = pm_truncated m, rm_seen = now\<rparr>
     # stamped topic now (seq + 1) ms"

lemma length_stamped [simp]: "length (stamped topic now seq ms) = length ms"
  by (induction ms arbitrary: seq) auto

lemma fold_push_recent:
  "fold (\<lambda>m. push_recent topic m now) ms st =
     st\<lparr>recent_messages := recent_messages st @ stamped topic now (next_seq st) ms,
        next_seq := next_seq st + of_nat (length ms)\<rparr>"
  by (induction ms arbitrary: st) (simp_all add: push_recent_def Let_def add.assoc)

lemma fold_topic_mut_frame [simp]:
  "subscriptions (fold (\<lambda>n. topic_mut n f) ns st) = subscriptions st"
  "recent_messages (fold (\<lambda>n. topic_mut n f) ns st) = recent_messages st"
  "recent_buffer_capacity (fold (\<lambda>n. topic_mut n f) ns st) = recent_buffer_capacity st"
  "next_seq (fold (\<lambda>n. topic_mut n f) ns st) = next_seq st"
  "topics (fold (\<lambda>n. topic_mut n f) ns st) = fold (\<lambda>n. bt_upsert n default_topic f) ns (topics st)"
  by (induction ns arbitrary: st) simp_all

lemma fold_subscription_mut_frame [simp]:
  "topics (fold (\<lambda>i. subscription_mut (g i) (h i)) is st) = topics st"
  "recent_messages (fold (\<lambda>i. subscription_mut (g i) (h i)) is st) = recent_messages st"
  "recent_buffer_capacity (fold (\<lambda>i. subscription_mut (g i) (h i)) is st) = recent_buffer_capacity st"
  "next_seq (fold (\<lambda>i. subscription_mut (g i) (h i)) is st) = next_seq st"
  "subscriptions (fold (\<lambda>i. subscription_mut (g i) (h i)) is st) =
     fold (\<lambda>i. bt_upsert (g i) default_subscription (h i)) is (subscriptions st)"
  by (induction "is" arbitrary: st) simp_all

lemma apply_publish_eq:
  "apply_publish topic peer ms now st =
     st\<lparr>topics := bt_upsert topic default_topic (record_publish peer (of_nat (length ms)) now) (topics st),
        recent_messages := recent_messages st @ stamped topic now (next_seq st) ms,
        next_seq := next_seq st + of_nat (length ms)\<rparr>"
  by (simp add: apply_publish_def fold_push_recent Let_def topic_mut_def)

lemma apply_admin_eq:
  "apply_admin names infos st =
     st\<lparr>topics := fold (\<lambda>name. bt_upsert name default_topic (\<lambda>t. t\<lparr>topic_exists := True\<rparr>)) names
          (bt_map (\<lambda>_ t. t\<lparr>topic_exists := False\<rparr>) (topics st)),
        subscriptions := fold (\<lambda>info. bt_upsert (si_name info) default_subscription
            (\<lambda>s. s\<lparr>sub_exists := True, sub_topic := Some (si_topic info)\<rparr>)) infos
          (bt_map (\<lambda>_ s. s\<lparr>sub_exists := False\<rparr>) (subscriptions st))\<rparr>"
  by (rule AppState.equality) (simp_all add: apply_admin_def Let_def)

text \<open>What an observation appends to the message buffer, and that it reads nothing of it.\<close>

fun appended :: "observation \<Rightarrow> instant \<Rightarrow> u64 \<Rightarrow> RecentMessage list" where
  "appended (Publish topic peer ms) now seq = stamped topic now seq ms"
| "appended _ now seq = []"

fun message_count :: "observation \<Rightarrow> nat" where
  "message_count (Publish topic peer ms) = length ms"
| "message_count _ = 0"

lemma apply_obs_recent:
  "recent_messages (apply_obs obs now st) = recent_messages st @ appended obs now (next_seq st)"
  "next_seq (apply_obs obs now st) = next_seq st + of_nat (message_count obs)"
  "recent_buffer_capacity (apply_obs obs now st) = recent_buffer_capacity st"
  by (cases obs; simp add: apply_publish_eq apply_admin_eq)+

lemma apply_obs_ignores_recent:
  "apply_obs obs now (st\<lparr>recent_messages := xs\<rparr>) =
     (apply_obs obs now st)\<lparr>recent_messages := xs @ appended obs now (next_seq st)\<rparr>"
  by (cases obs) (simp_all add: apply_publish_eq apply_admin_eq subscription_mut_def)

end
