(* ===== verification/State_Facts.thy ===== *)
theory State_Facts
  imports State
begin

text \<open>
  What makes the folding of observations correct: the accounting invariant, the abstract counters
  it implements, the effect of an admin snapshot, the bounded message buffer and its independence
  of how observations are batched.
\<close>

type_synonym timed_obs = "observation \<times> instant"

definition apply_timed :: "timed_obs \<Rightarrow> AppState \<Rightarrow> AppState" where
  "apply_timed e st = apply_obs (fst e) (snd e) st"

lemma apply_timed_recent:
  "recent_messages (apply_timed e st) = recent_messages st @ appended (fst e) (snd e) (next_seq st)"
  "next_seq (apply_timed e st) = next_seq st + of_nat (message_count (fst e))"
  "recent_buffer_capacity (apply_timed e st) = recent_buffer_capacity st"
  by (simp_all add: apply_timed_def apply_obs_recent)

subsection \<open>The accounting invariant\<close>

text \<open>
  A topic's total is the sum over its publishers; the sum over the topics is the next sequence
  number; the buffer holds consecutively numbered messages ending just below it, each of a known
  topic. All sums are sums of \<open>u64\<close>, wrapping like the program's.
\<close>

definition topic_ok :: "Topic \<Rightarrow> bool" where
  "topic_ok t \<longleftrightarrow> bt_wf (publishers t) \<and> publish_count t = bt_sum published (publishers t)"

fun seqs_from :: "u64 \<Rightarrow> RecentMessage list \<Rightarrow> bool" where
  "seqs_from s [] = True"
| "seqs_from s (m # ms) = (rm_seq m = s \<and> seqs_from (s + 1) ms)"

definition state_ok :: "AppState \<Rightarrow> bool" where
  "state_ok st \<longleftrightarrow>
     bt_wf (topics st) \<and> bt_wf (subscriptions st) \<and>
     (\<forall>n t. bt_get (topics st) n = Some t \<longrightarrow> topic_ok t) \<and>
     bt_sum publish_count (topics st) = next_seq st \<and>
     seqs_from (next_seq st - of_nat (length (recent_messages st))) (recent_messages st) \<and>
     (\<forall>m \<in> set (recent_messages st). bt_get (topics st) (rm_topic m) \<noteq> None)"

text \<open>The part that is about the shape of the maps only.\<close>

definition maps_ok :: "AppState \<Rightarrow> bool" where
  "maps_ok st \<longleftrightarrow> bt_wf (topics st) \<and> bt_wf (subscriptions st) \<and>
     (\<forall>n t. bt_get (topics st) n = Some t \<longrightarrow> bt_wf (publishers t))"

lemma state_ok_maps_ok: "state_ok st \<Longrightarrow> maps_ok st"
  by (auto simp: state_ok_def maps_ok_def topic_ok_def)

lemma seqs_from_append:
  "seqs_from s (xs @ ys) \<longleftrightarrow> seqs_from s xs \<and> seqs_from (s + of_nat (length xs)) ys"
  by (induction xs arbitrary: s) (auto simp: algebra_simps)

lemma seqs_from_stamped [simp]: "seqs_from s (stamped topic now s ms)"
  by (induction ms arbitrary: s) auto

lemma seqs_from_appended [simp]: "seqs_from s (appended obs now s)"
  by (cases obs) auto

lemma length_appended [simp]: "length (appended obs now s) = message_count obs"
  by (cases obs) auto

lemma stamped_topic: "m \<in> set (stamped topic now s ms) \<Longrightarrow> rm_topic m = topic"
  by (induction ms arbitrary: s) auto

lemma seqs_from_nth: "seqs_from s xs \<Longrightarrow> i < length xs \<Longrightarrow> rm_seq (xs ! i) = s + of_nat i"
  by (induction xs arbitrary: s i) (auto simp: nth_Cons split: nat.splits)

lemma seqs_from_append_drop:
  assumes "seqs_from (n - of_nat (length xs)) xs"
  shows "seqs_from (n - of_nat (length (drop k xs))) (drop k xs)"
proof (cases "k \<le> length xs")
  case True
  from assms have "seqs_from (n - of_nat (length xs)) (take k xs @ drop k xs)" by simp
  with True show ?thesis
    by (simp only: seqs_from_append) (auto simp: of_nat_diff algebra_simps min_def split: if_splits)
qed simp

lemma record_publish_ok:
  assumes "topic_ok t"
  shows "topic_ok (record_publish peer c now t)"
  using assms
  by (auto simp: topic_ok_def record_publish_def Let_def bt_sum_upsert split: option.split)

lemma publish_count_record [simp]:
  "publish_count (record_publish peer c now t) = publish_count t + c"
  by (simp add: record_publish_def Let_def)

lemma topic_ok_default [simp]: "topic_ok default_topic"
  by (simp add: topic_ok_def default_topic_def)

lemma topic_ok_exists [simp]: "topic_ok (t\<lparr>topic_exists := b\<rparr>) = topic_ok t"
  by (simp add: topic_ok_def)

text \<open>Marking topics as existing, one by one, touches nothing but the flag and may add entries.\<close>

abbreviation mark_topics :: "string list \<Rightarrow> (string, Topic) btree_map \<Rightarrow> (string, Topic) btree_map" where
  "mark_topics \<equiv> fold (\<lambda>name. bt_upsert name default_topic (\<lambda>t. t\<lparr>topic_exists := True\<rparr>))"

abbreviation mark_subs ::
  "SubscriptionInfo list \<Rightarrow> (string, Subscription) btree_map \<Rightarrow> (string, Subscription) btree_map" where
  "mark_subs \<equiv> fold (\<lambda>info. bt_upsert (si_name info) default_subscription
     (\<lambda>s. s\<lparr>sub_exists := True, sub_topic := Some (si_topic info)\<rparr>))"

lemma mark_topics_get:
  "bt_get (mark_topics names m) n =
     (if n \<in> set names
      then Some ((case bt_get m n of None \<Rightarrow> default_topic | Some t \<Rightarrow> t)\<lparr>topic_exists := True\<rparr>)
      else bt_get m n)"
  by (induction names arbitrary: m) (auto simp: bt_get_upsert split: option.splits)

lemma mark_topics_wf [intro]: "bt_wf m \<Longrightarrow> bt_wf (mark_topics names m)"
  by (induction names arbitrary: m) auto

lemma mark_topics_sum: "bt_wf m \<Longrightarrow> bt_sum publish_count (mark_topics names m) = bt_sum publish_count m"
  by (induction names arbitrary: m)
    (simp_all add: bt_wf_upsert bt_sum_upsert default_topic_def Let_def)

lemma mark_subs_wf [intro]: "bt_wf m \<Longrightarrow> bt_wf (mark_subs infos m)"
  by (induction infos arbitrary: m) auto

lemma mark_subs_get:
  "bt_get (mark_subs infos m) n =
     (case rev (filter (\<lambda>i. si_name i = n) infos) of
        [] \<Rightarrow> bt_get m n
      | i # _ \<Rightarrow> Some ((case bt_get m n of None \<Rightarrow> default_subscription | Some s \<Rightarrow> s)
                  \<lparr>sub_exists := True, sub_topic := Some (si_topic i)\<rparr>))"
proof (induction infos arbitrary: m)
  case (Cons i infos)
  then show ?case
    by (cases "rev (filter (\<lambda>i. si_name i = n) infos)")
      (auto simp: bt_get_upsert split: option.splits list.splits)
qed simp

subsubsection \<open>Preservation, observation by observation\<close>

lemma state_okI:
  assumes "state_ok st"
    and "bt_wf ts" "bt_wf ss"
    and "\<And>n t. bt_get ts n = Some t \<Longrightarrow> topic_ok t"
    and "bt_sum publish_count ts = next_seq st + of_nat (length ms)"
    and "seqs_from (next_seq st) ms"
    and "\<And>n. bt_get (topics st) n \<noteq> None \<Longrightarrow> bt_get ts n \<noteq> None"
    and "\<And>m. m \<in> set ms \<Longrightarrow> bt_get ts (rm_topic m) \<noteq> None"
  shows "state_ok (st\<lparr>topics := ts, subscriptions := ss,
    recent_messages := recent_messages st @ ms, next_seq := next_seq st + of_nat (length ms)\<rparr>)"
  using assms by (auto simp: state_ok_def seqs_from_append algebra_simps)

lemma state_ok_subs:
  "state_ok st \<Longrightarrow> bt_wf ss \<Longrightarrow> state_ok (st\<lparr>subscriptions := ss\<rparr>)"
  by (simp add: state_ok_def)

lemma state_ok_publish:
  assumes "state_ok st"
  shows "state_ok (apply_publish topic peer ms now st)"
proof -
  let ?f = "record_publish peer (of_nat (length ms)) now"
  let ?ts = "bt_upsert topic default_topic ?f (topics st)"
  have wf: "bt_wf (topics st)" using assms by (simp add: state_ok_def)
  have "topic_ok t" if "bt_get ?ts n = Some t" for n t
    using that assms
    by (auto simp: bt_get_upsert state_ok_def record_publish_ok split: if_splits option.splits)
  moreover have "bt_sum publish_count ?ts = next_seq st + of_nat (length ms)"
    using assms wf by (simp add: bt_sum_upsert default_topic_def Let_def state_ok_def)
  moreover have "bt_get ?ts (rm_topic m) \<noteq> None" if "m \<in> set (stamped topic now (next_seq st) ms)" for m
    using stamped_topic [OF that] by (simp add: bt_get_upsert)
  ultimately have "state_ok (st\<lparr>topics := ?ts, subscriptions := subscriptions st,
      recent_messages := recent_messages st @ stamped topic now (next_seq st) ms,
      next_seq := next_seq st + of_nat (length (stamped topic now (next_seq st) ms))\<rparr>)"
    using assms wf by (intro state_okI) (auto simp: bt_get_upsert state_ok_def)
  then show ?thesis by (simp add: apply_publish_eq)
qed

lemma state_ok_admin:
  assumes "state_ok st"
  shows "state_ok (apply_admin names infos st)"
proof -
  let ?ts = "mark_topics names (bt_map (\<lambda>_ t. t\<lparr>topic_exists := False\<rparr>) (topics st))"
  let ?ss = "mark_subs infos (bt_map (\<lambda>_ s. s\<lparr>sub_exists := False\<rparr>) (subscriptions st))"
  have wf: "bt_wf (topics st)" "bt_wf (subscriptions st)" using assms by (simp_all add: state_ok_def)
  have "topic_ok t" if "bt_get ?ts n = Some t" for n t
    using that assms
    by (auto simp: mark_topics_get bt_get_map state_ok_def split: if_splits option.splits)
  moreover have "bt_sum publish_count ?ts = next_seq st"
    using assms wf by (simp add: mark_topics_sum bt_sum_map state_ok_def)
  moreover have "bt_get ?ts n \<noteq> None" if "bt_get (topics st) n \<noteq> None" for n
    using that by (auto simp: mark_topics_get bt_get_map)
  ultimately have "state_ok (st\<lparr>topics := ?ts, subscriptions := ?ss,
      recent_messages := recent_messages st @ [], next_seq := next_seq st + of_nat (length ([] :: RecentMessage list))\<rparr>)"
    using assms wf by (intro state_okI) auto
  then show ?thesis by (simp add: apply_admin_eq)
qed

lemma state_ok_subscription_mut: "state_ok st \<Longrightarrow> state_ok (subscription_mut n f st)"
  unfolding subscription_mut_def by (rule state_ok_subs) (auto simp: state_ok_def)

lemma apply_obs_ok: "state_ok st \<Longrightarrow> state_ok (apply_obs obs now st)"
  by (cases obs) (simp_all add: state_ok_publish state_ok_admin state_ok_subscription_mut)

lemma apply_timed_ok: "state_ok st \<Longrightarrow> state_ok (apply_timed e st)"
  by (simp add: apply_timed_def apply_obs_ok)

lemma default_state_ok [simp]: "state_ok (default_state\<lparr>recent_buffer_capacity := cap\<rparr>)"
  by (simp add: state_ok_def default_state_def)

interpretation folding: event_machine apply_timed state_ok "default_state\<lparr>recent_buffer_capacity := cap\<rparr>"
  by unfold_locales (simp_all add: apply_timed_ok)

subsection \<open>The bounded buffer\<close>

lemma pop_while_over_drop: "pop_while_over cap xs = drop (length xs - cap) xs"
proof (induction xs)
  case (Cons x xs)
  show ?case
  proof (cases "length (x # xs) > cap")
    case True
    then have "length (x # xs) - cap = Suc (length xs - cap)" by simp
    with True Cons.IH show ?thesis by simp
  qed simp
qed simp

lemma trim_recent_frame [simp]:
  "topics (trim_recent cap st) = topics st"
  "subscriptions (trim_recent cap st) = subscriptions st"
  "recent_buffer_capacity (trim_recent cap st) = recent_buffer_capacity st"
  "next_seq (trim_recent cap st) = next_seq st"
  "recent_messages (trim_recent cap st) = drop (length (recent_messages st) - cap) (recent_messages st)"
  by (simp_all add: trim_recent_def pop_while_over_drop)

lemma trim_recent_ok: "state_ok st \<Longrightarrow> state_ok (trim_recent cap st)"
  using seqs_from_append_drop [of "next_seq st" "recent_messages st" "length (recent_messages st) - cap"]
  by (auto simp: state_ok_def trim_recent_def pop_while_over_drop dest: in_set_dropD)

text \<open>Applying an observation to a trimmed state and trimming again loses nothing.\<close>

lemma drop_append_bounded:
  "drop (length (drop (length xs - n) xs @ ys) - n) (drop (length xs - n) xs @ ys) =
   drop (length (xs @ ys) - n) (xs @ ys)"
proof (cases "length xs \<le> n")
  case False
  then have "length (drop (length xs - n) xs) = n" by simp
  with False show ?thesis by (simp add: drop_append add.commute)
qed simp

lemma trim_apply_trim:
  "trim_recent cap (apply_timed e (trim_recent cap st)) = trim_recent cap (apply_timed e st)"
proof -
  have eq: "trim_recent cap s = s\<lparr>recent_messages :=
      drop (length (recent_messages s) - cap) (recent_messages s)\<rparr>" for s
    by (simp add: trim_recent_def pop_while_over_drop)
  show ?thesis
    by (simp only: eq apply_timed_def apply_obs_ignores_recent)
      (simp add: apply_obs_recent drop_append_bounded del: length_drop length_append drop_append)
qed

lemma trim_recent_idem: "trim_recent cap (trim_recent cap st) = trim_recent cap st"
  by (simp add: trim_recent_def pop_while_over_drop)

lemma trim_each_eq_trim_once:
  "fold (\<lambda>e st. trim_recent cap (apply_timed e st)) es (trim_recent cap st) =
   trim_recent cap (fold apply_timed es st)"
proof (induction es arbitrary: st)
  case (Cons e es)
  have "fold (\<lambda>e st. trim_recent cap (apply_timed e st)) (e # es) (trim_recent cap st) =
      fold (\<lambda>e st. trim_recent cap (apply_timed e st)) es (trim_recent cap (apply_timed e st))"
    by (simp add: trim_apply_trim)
  then show ?case using Cons.IH by simp
qed simp

subsection \<open>Abstract counters\<close>

text \<open>
  What the state promises about counts, without maps: for every topic its total, for every topic
  and publisher key the publisher's share, for every subscription its delivered, acknowledged and
  live figures. The specification adds each observation's contribution and touches nothing else.
\<close>

record Totals =
  tot_topic :: "string \<Rightarrow> u64"
  tot_publisher :: "string \<Rightarrow> string \<Rightarrow> u64"
  tot_delivered :: "string \<Rightarrow> u64"
  tot_acked :: "string \<Rightarrow> u64"
  tot_live :: "string \<Rightarrow> u64"

definition topic_at :: "AppState \<Rightarrow> string \<Rightarrow> Topic" where
  "topic_at st n = (case bt_get (topics st) n of None \<Rightarrow> default_topic | Some t \<Rightarrow> t)"

definition subscription_at :: "AppState \<Rightarrow> string \<Rightarrow> Subscription" where
  "subscription_at st n =
     (case bt_get (subscriptions st) n of None \<Rightarrow> default_subscription | Some s \<Rightarrow> s)"

definition publisher_share :: "Topic \<Rightarrow> string \<Rightarrow> u64" where
  "publisher_share t key = (case bt_get (publishers t) key of None \<Rightarrow> 0 | Some p \<Rightarrow> published p)"

definition abs_totals :: "AppState \<Rightarrow> Totals" where
  "abs_totals st = \<lparr>tot_topic = (\<lambda>n. publish_count (topic_at st n)),
     tot_publisher = (\<lambda>n. publisher_share (topic_at st n)),
     tot_delivered = (\<lambda>n. delivered (subscription_at st n)),
     tot_acked = (\<lambda>n. acked (subscription_at st n)),
     tot_live = (\<lambda>n. live_consumers (subscription_at st n))\<rparr>"

fun spec_obs :: "observation \<Rightarrow> Totals \<Rightarrow> Totals" where
  "spec_obs (Publish topic peer ms) tot =
     tot\<lparr>tot_topic := (tot_topic tot)(topic := tot_topic tot topic + of_nat (length ms)),
         tot_publisher := (tot_publisher tot)(topic :=
           (tot_publisher tot topic)(peer_key peer :=
              tot_publisher tot topic (peer_key peer) + of_nat (length ms)))\<rparr>"
| "spec_obs (Deliver sub peer n) tot =
     tot\<lparr>tot_delivered := (tot_delivered tot)(sub := tot_delivered tot sub + n)\<rparr>"
| "spec_obs (Ack sub peer n) tot =
     tot\<lparr>tot_acked := (tot_acked tot)(sub := tot_acked tot sub + n)\<rparr>"
| "spec_obs (ConsumerOpen sub peer) tot =
     tot\<lparr>tot_live := (tot_live tot)(sub := tot_live tot sub + 1)\<rparr>"
| "spec_obs (ConsumerClose sub peer) tot =
     tot\<lparr>tot_live := (tot_live tot)(sub := saturating_sub (tot_live tot sub) 1)\<rparr>"
| "spec_obs (AdminSnapshot names infos) tot = tot"

lemma topic_at_simps [simp]:
  "topic_at (st\<lparr>subscriptions := ss\<rparr>) n = topic_at st n"
  "topic_at (subscription_mut k g st) n = topic_at st n"
  "subscription_at (st\<lparr>topics := ts\<rparr>) n = subscription_at st n"
  by (simp_all add: topic_at_def subscription_at_def)

lemma subscription_at_mut [simp]:
  "subscription_at (subscription_mut k g st) n =
     (if n = k then g (subscription_at st n) else subscription_at st n)"
  by (simp add: subscription_at_def bt_get_upsert)

lemma topic_at_publish:
  "topic_at (apply_publish topic peer ms now st) n =
     (if n = topic then record_publish peer (of_nat (length ms)) now (topic_at st n) else topic_at st n)"
  by (simp add: topic_at_def apply_publish_eq bt_get_upsert)

lemma subscription_at_publish [simp]:
  "subscription_at (apply_publish topic peer ms now st) n = subscription_at st n"
  by (simp add: subscription_at_def apply_publish_eq)

lemma publisher_share_record:
  "publisher_share (record_publish peer c now t) =
     (publisher_share t)(peer_key peer := publisher_share t (peer_key peer) + c)"
  by (rule ext) (simp add: publisher_share_def record_publish_def Let_def bt_get_upsert split: option.split)

lemma default_exists [simp]:
  "default_topic\<lparr>topic_exists := False\<rparr> = default_topic"
  "default_subscription\<lparr>sub_exists := False\<rparr> = default_subscription"
  by (simp_all add: default_topic_def default_subscription_def)

lemma topic_at_admin:
  "topic_at (apply_admin names infos st) n = (topic_at st n)\<lparr>topic_exists := n \<in> set names\<rparr>"
  by (simp add: topic_at_def apply_admin_eq mark_topics_get bt_get_map
      split: option.split)

lemma subscription_at_admin:
  "subscription_at (apply_admin names infos st) n =
     (case rev (filter (\<lambda>i. si_name i = n) infos) of
        [] \<Rightarrow> (subscription_at st n)\<lparr>sub_exists := False\<rparr>
      | i # _ \<Rightarrow> (subscription_at st n)\<lparr>sub_exists := True, sub_topic := Some (si_topic i)\<rparr>)"
  by (simp add: subscription_at_def apply_admin_eq mark_subs_get bt_get_map
      split: option.split list.split)

lemma publisher_share_exists [simp]: "publisher_share (t\<lparr>topic_exists := b\<rparr>) = publisher_share t"
  by (rule ext) (simp add: publisher_share_def)

lemma abs_totals_apply: "abs_totals (apply_obs obs now st) = spec_obs obs (abs_totals st)"
proof (cases obs)
  case (AdminSnapshot names infos)
  have "live_consumers (subscription_at (apply_admin names infos st) n) = live_consumers (subscription_at st n) \<and>
    delivered (subscription_at (apply_admin names infos st) n) = delivered (subscription_at st n) \<and>
    acked (subscription_at (apply_admin names infos st) n) = acked (subscription_at st n)" for n
    by (simp add: subscription_at_admin split: list.split)
  with AdminSnapshot show ?thesis by (simp add: abs_totals_def topic_at_admin)
next
  case (Publish topic peer ms)
  then show ?thesis
    by (simp add: abs_totals_def topic_at_publish publisher_share_record fun_eq_iff)
qed (simp_all add: abs_totals_def fun_eq_iff)

interpretation counting: step_refinement apply_timed "\<lambda>e. spec_obs (fst e)" abs_totals "\<lambda>_. True"
  by unfold_locales (simp_all add: apply_timed_def abs_totals_apply)

end
