(* ===== verification/State_Props.thy ===== *)
theory State_Props
  imports State_Facts "HOL-Library.Multiset"
begin

text \<open>
  The properties of the application state: what a run of observations, in any order and batched in
  any way, leaves in it.
\<close>

definition start_state :: "nat \<Rightarrow> AppState" where
  "start_state cap = default_state\<lparr>recent_buffer_capacity := cap\<rparr>"

abbreviation fold_obs :: "timed_obs list \<Rightarrow> AppState \<Rightarrow> AppState" where
  "fold_obs \<equiv> fold apply_timed"

lemma start_state_ok [simp]: "state_ok (start_state cap)"
  by (simp add: start_state_def)

lemma fold_obs_ok: "state_ok (fold_obs es (start_state cap))"
  unfolding start_state_def by (rule folding.reachable_inv)

lemma next_seq_fold:
  "next_seq (fold_obs es st) = next_seq st + of_nat (sum_list (map (message_count \<circ> fst) es))"
  by (induction es arbitrary: st) (simp_all add: apply_timed_recent add.assoc)

lemma capacity_fold [simp]: "recent_buffer_capacity (fold_obs es st) = recent_buffer_capacity st"
  by (induction es arbitrary: st) (simp_all add: apply_timed_recent)

subsection \<open>Accounting\<close>

text \<open>
  Claim C28. After any run of observations the books balance: the topic totals add up to the number
  of messages observed (which is also the next sequence number), and the total of every topic is
  the sum of what is attributed to its publishers.
\<close>

theorem accounting:
  "let st = fold_obs es (start_state cap) in
     bt_sum publish_count (topics st) = of_nat (sum_list (map (message_count \<circ> fst) es)) \<and>
     next_seq st = bt_sum publish_count (topics st) \<and>
     list_all (\<lambda>t. publish_count t = bt_sum published (publishers t)) (bt_values (topics st))"
proof -
  let ?st = "fold_obs es (start_state cap)"
  have ok: "state_ok ?st" by (rule fold_obs_ok)
  then have "next_seq ?st = bt_sum publish_count (topics ?st)"
    by (simp add: state_ok_def)
  moreover have "next_seq ?st = of_nat (sum_list (map (message_count \<circ> fst) es))"
    by (simp add: next_seq_fold start_state_def default_state_def)
  moreover have "list_all (\<lambda>t. publish_count t = bt_sum published (publishers t)) (bt_values (topics ?st))"
    using ok by (auto simp: state_ok_def topic_ok_def bt_values_def bt_wf_distinct list_all_iff)
  ultimately show ?thesis by (simp add: Let_def)
qed

lemma fold_obs_totals: "abs_totals (fold_obs es st) = fold spec_obs (map fst es) (abs_totals st)"
  by (simp add: counting.run_sim fold_map comp_def)

text \<open>
  Claim C5. The state implements the abstract counters: folding any observations changes the
  per-topic, per-publisher, delivered, acknowledged and live figures exactly as the specification
  adds them up, and an admin snapshot changes none of them.
\<close>

theorem counters_refine_spec:
  "abs_totals (fold_obs es st) = fold (spec_obs \<circ> fst) es (abs_totals st)"
  by (simp add: counting.run_sim comp_def)

text \<open>
  Interleaving. The proxy's handlers and the poller run concurrently; which order their
  observations reach the state in is not determined.
\<close>

fun is_close :: "observation \<Rightarrow> bool" where
  "is_close (ConsumerClose sub peer) = True"
| "is_close _ = False"

lemma spec_obs_commute:
  "\<not> is_close x \<Longrightarrow> \<not> is_close y \<Longrightarrow> spec_obs x \<circ> spec_obs y = spec_obs y \<circ> spec_obs x"
  by (rule ext, cases x; cases y) (auto simp: fun_eq_iff algebra_simps)

text \<open>
  The figures do not depend on the interleaving: two runs of the same observations in any
  order, at any times, end with the same counters, provided no consumer closes in between (a close
  saturates at zero, so it does not commute with an open).
\<close>

theorem counters_order_independent:
  assumes "mset (map fst es) = mset (map fst es')"
    and "\<forall>e \<in> set es. \<not> is_close (fst e)"
  shows "abs_totals (fold_obs es st) = abs_totals (fold_obs es' st)"
proof -
  have "fold spec_obs (map fst es) = fold spec_obs (map fst es')"
    using assms by (intro fold_multiset_equiv spec_obs_commute) (auto dest!: mset_eq_setD)
  then show ?thesis by (simp add: fold_obs_totals)
qed

theorem counters_order_independent_witness:
  "abs_totals (fold_obs [(Ack ''s'' None 2, 0), (Publish ''t'' None [], 1)] (start_state 5)) =
   abs_totals (fold_obs [(Publish ''t'' None [], 7), (Ack ''s'' None 2, 7)] (start_state 5))"
  by (rule counters_order_independent) simp_all

subsection \<open>The message buffer\<close>

definition apply_burst :: "nat \<Rightarrow> timed_obs list \<Rightarrow> AppState \<Rightarrow> AppState" where
  "apply_burst cap burst st = trim_recent cap (fold_obs burst st)"

text \<open>
  Claim C23. Batching is invisible: trimming the buffer once after a burst leaves exactly the state
  that trimming after every single observation leaves, however the observations fall into bursts.
\<close>

theorem batching_invisible:
  "fold (apply_burst cap) bursts (start_state cap) =
   fold (\<lambda>e st. trim_recent cap (apply_timed e st)) (concat bursts) (start_state cap)"
proof -
  have start: "trim_recent cap (start_state cap) = start_state cap"
    by (simp add: trim_recent_def start_state_def default_state_def)
  have "fold (apply_burst cap) bursts st =
      fold (\<lambda>e st. trim_recent cap (apply_timed e st)) (concat bursts) st"
    if "trim_recent cap st = st" for st
    using that
  proof (induction bursts arbitrary: st)
    case (Cons b bursts)
    have "fold (\<lambda>e st. trim_recent cap (apply_timed e st)) b st = apply_burst cap b st"
      using trim_each_eq_trim_once [of cap b st] Cons.prems by (simp add: apply_burst_def)
    with Cons.IH [of "apply_burst cap b st"] show ?case
      by (simp add: apply_burst_def trim_recent_idem)
  qed simp
  from this [OF start] show ?thesis .
qed

lemma fold_apply_burst: "fold (apply_burst cap) bursts st =
  (if bursts = [] then st else trim_recent cap (fold_obs (concat bursts) st))"
proof (induction bursts arbitrary: st)
  case (Cons b bursts)
  have "trim_recent cap (fold_obs es (trim_recent cap st')) = trim_recent cap (fold_obs es st')" for es st'
    using trim_each_eq_trim_once [of cap es st'] trim_each_eq_trim_once [of cap es "trim_recent cap st'"]
    by (simp add: trim_recent_idem)
  with Cons.IH show ?case by (simp add: apply_burst_def)
qed simp

text \<open>
  After any bursts the buffer is the newest \<open>cap\<close> messages of everything observed, oldest
  first: it is the length-\<open>cap\<close> suffix of what an unbounded buffer would hold, and its messages are
  numbered consecutively up to the next sequence number.
\<close>

theorem buffer_is_newest_suffix:
  fixes bursts :: "timed_obs list list"
  shows "let st = fold (apply_burst cap) bursts (start_state cap);
             seen = recent_messages (fold_obs (concat bursts) (start_state cap))
         in recent_messages st = drop (length seen - cap) seen \<and>
            length (recent_messages st) = min cap (length seen) \<and>
            seqs_from (next_seq st - of_nat (length (recent_messages st))) (recent_messages st)"
proof (cases "bursts = []")
  case True
  then show ?thesis by (simp add: start_state_def default_state_def)
next
  case False
  let ?all = "fold_obs (concat bursts) (start_state cap)"
  have "state_ok (trim_recent cap ?all)"
    by (intro trim_recent_ok fold_obs_ok)
  then have "seqs_from (next_seq ?all - of_nat (length (recent_messages (trim_recent cap ?all))))
      (recent_messages (trim_recent cap ?all))"
    by (simp only: state_ok_def trim_recent_frame)
  with False show ?thesis
    by (auto simp: fold_apply_burst Let_def)
qed

subsection \<open>Admin snapshots\<close>

lemma topic_count_card:
  "state_ok st \<Longrightarrow> topic_count st = card {n. topic_exists (topic_at st n)}"
  unfolding topic_count_def
  by (subst bt_count) (auto simp: state_ok_def topic_at_def default_topic_def intro!: arg_cong [of _ _ card]
      split: option.splits)

lemma sub_exists_admin:
  "sub_exists (subscription_at (apply_obs (AdminSnapshot names infos) now st) n) \<longleftrightarrow> n \<in> si_name ` set infos"
proof (cases "rev (filter (\<lambda>i. si_name i = n) infos)")
  case Nil
  then show ?thesis by (auto simp: subscription_at_admin filter_empty_conv)
next
  case (Cons i rest)
  then have "i \<in> set (filter (\<lambda>i. si_name i = n) infos)"
    by (metis list.set_intros(1) set_rev)
  then have "n \<in> si_name ` set infos" by auto
  with Cons show ?thesis by (simp add: subscription_at_admin)
qed

text \<open>
  An admin snapshot reconciles existence with the listing and nothing else: afterwards
  exactly the listed topics and subscriptions exist, the topic count is the number of distinct
  listed topics, and every observed counter, the message buffer and the parent topic of an unlisted
  subscription are as before.
\<close>

theorem admin_reconciles:
  assumes "state_ok st"
  shows "let st' = apply_obs (AdminSnapshot names infos) now st in
     (\<forall>n. topic_exists (topic_at st' n) \<longleftrightarrow> n \<in> set names) \<and>
     (\<forall>n. sub_exists (subscription_at st' n) \<longleftrightarrow> n \<in> si_name ` set infos) \<and>
     topic_count st' = card (set names) \<and>
     abs_totals st' = abs_totals st \<and>
     recent_messages st' = recent_messages st \<and>
     (\<forall>n. n \<notin> si_name ` set infos \<longrightarrow> sub_topic (subscription_at st' n) = sub_topic (subscription_at st n))"
proof -
  let ?st' = "apply_obs (AdminSnapshot names infos) now st"
  have subs: "sub_exists (subscription_at ?st' n) \<longleftrightarrow> n \<in> si_name ` set infos" for n
    by (rule sub_exists_admin)
  have unlisted: "sub_topic (subscription_at ?st' n) = sub_topic (subscription_at st n)"
    if "n \<notin> si_name ` set infos" for n
  proof -
    have "filter (\<lambda>i. si_name i = n) infos = []"
      using that by (auto simp: filter_empty_conv)
    then show ?thesis by (simp add: subscription_at_admin)
  qed
  have topics: "topic_exists (topic_at ?st' n) \<longleftrightarrow> n \<in> set names" for n
    by (simp add: topic_at_admin)
  then have "topic_count ?st' = card (set names)"
    using topic_count_card [OF apply_obs_ok [OF assms], of "AdminSnapshot names infos" now] by simp
  moreover have "abs_totals ?st' = abs_totals st"
    by (simp only: abs_totals_apply spec_obs.simps)
  moreover have "recent_messages ?st' = recent_messages st"
    by (simp only: apply_obs_recent appended.simps append_Nil2)
  ultimately show ?thesis
    using subs unlisted topics unfolding Let_def by blast
qed

theorem admin_reconciles_witness:
  "topic_count (apply_obs (AdminSnapshot [''t'', ''u'', ''t''] []) 0 (start_state 3)) = 2"
  using admin_reconciles [OF start_state_ok, of "[''t'', ''u'', ''t'']" "[]" 0 3]
  by (simp add: Let_def card_insert_if)

subsection \<open>Live consumers\<close>

fun is_open_of :: "string \<Rightarrow> observation \<Rightarrow> bool" where
  "is_open_of sub (ConsumerOpen s p) = (s = sub)"
| "is_open_of sub _ = False"

fun is_close_of :: "string \<Rightarrow> observation \<Rightarrow> bool" where
  "is_close_of sub (ConsumerClose s p) = (s = sub)"
| "is_close_of sub _ = False"

definition opens :: "string \<Rightarrow> observation list \<Rightarrow> nat" where
  "opens sub obs = length (filter (is_open_of sub) obs)"

definition closes :: "string \<Rightarrow> observation list \<Rightarrow> nat" where
  "closes sub obs = length (filter (is_close_of sub) obs)"

lemma spec_obs_live:
  "tot_live (spec_obs x tot) sub =
     (if is_open_of sub x then tot_live tot sub + 1
      else if is_close_of sub x then saturating_sub (tot_live tot sub) 1 else tot_live tot sub)"
  by (cases x) auto

lemma live_balance:
  assumes "\<And>k. closes sub (take k xs) \<le> opens sub (take k xs)" and "length xs < 2 ^ 64"
    and "tot_live tot sub = 0"
  shows "tot_live (fold spec_obs xs tot) sub = of_nat (opens sub xs - closes sub xs)"
  using assms(1,2)
proof (induction xs rule: rev_induct)
  case Nil
  then show ?case by (simp add: opens_def closes_def assms(3))
next
  case (snoc x xs)
  have prefixes: "closes sub (take k xs) \<le> opens sub (take k xs)" for k
    using snoc.prems(1) [of "min k (length xs)"] by (simp add: min_def split: if_splits)
  have IH: "tot_live (fold spec_obs xs tot) sub = of_nat (opens sub xs - closes sub xs)"
    using snoc.prems(2) by (intro snoc.IH prefixes) simp
  have le: "closes sub xs \<le> opens sub xs" using prefixes [of "length xs"] by simp
  have le': "closes sub (xs @ [x]) \<le> opens sub (xs @ [x])" using snoc.prems(1) [of "Suc (length xs)"] by simp
  have "opens sub xs \<le> length xs" by (simp add: opens_def)
  with snoc.prems(2) have small: "opens sub xs - closes sub xs < 2 ^ 64" by simp
  show ?case
  proof (cases "is_close_of sub x")
    case True
    then have "\<not> is_open_of sub x" by (cases x) auto
    with True le' have "closes sub xs < opens sub xs"
      by (simp add: opens_def closes_def)
    then obtain d where d: "opens sub xs = Suc (closes sub xs + d)"
      using less_iff_Suc_add by auto
    with small have "saturating_sub (of_nat (Suc d)) 1 = (of_nat d :: u64)"
      by (intro saturating_sub_Suc) simp
    with True \<open>\<not> is_open_of sub x\<close> IH d show ?thesis
      by (simp add: spec_obs_live) (simp add: opens_def closes_def)
  next
    case False
    with le IH show ?thesis
      by (auto simp: spec_obs_live opens_def closes_def Suc_diff_le)
  qed
qed

text \<open>
  If no consumer of a subscription ever closes before it opened, the live figure of the
  subscription is the number of opens minus the number of closes: the saturating decrement never
  takes effect.
\<close>

theorem live_consumers_exact:
  assumes "\<forall>k. closes sub (take k (map fst es)) \<le> opens sub (take k (map fst es))"
    and "length es < 2 ^ 64"
  shows "live_consumers (subscription_at (fold_obs es (start_state cap)) sub) =
    of_nat (opens sub (map fst es) - closes sub (map fst es))"
proof -
  have "tot_live (abs_totals (start_state cap)) sub = 0"
    by (simp add: abs_totals_def subscription_at_def start_state_def state_defs)
  then have "tot_live (fold spec_obs (map fst es) (abs_totals (start_state cap))) sub =
      of_nat (opens sub (map fst es) - closes sub (map fst es))"
    using assms by (intro live_balance) auto
  then have "tot_live (abs_totals (fold_obs es (start_state cap))) sub =
      of_nat (opens sub (map fst es) - closes sub (map fst es))"
    by (simp only: fold_obs_totals)
  then show ?thesis by (simp add: abs_totals_def)
qed

theorem live_consumers_exact_witness:
  "live_consumers (subscription_at (fold_obs
     [(ConsumerOpen ''s'' None, 0), (ConsumerOpen ''s'' None, 1), (ConsumerClose ''s'' None, 2)]
     (start_state 9)) ''s'') = 1"
proof -
  let ?es = "[(ConsumerOpen ''s'' None, 0), (ConsumerOpen ''s'' None, 1), (ConsumerClose ''s'' None, 2)]
    :: timed_obs list"
  have "closes ''s'' (take k (map fst ?es)) \<le> opens ''s'' (take k (map fst ?es))" for k
    by (auto simp: closes_def opens_def take_Cons' )
  then show ?thesis
    using live_consumers_exact [of "''s''" ?es 9] by (simp add: closes_def opens_def)
qed

subsection \<open>Connected publishers\<close>

definition publisher_at :: "AppState \<Rightarrow> string \<Rightarrow> string \<Rightarrow> Publisher option" where
  "publisher_at st n k = bt_get (publishers (topic_at st n)) k"

fun publishes_as :: "string \<Rightarrow> string \<Rightarrow> observation \<Rightarrow> bool" where
  "publishes_as n k (Publish topic peer ms) = (topic = n \<and> peer_key peer = k)"
| "publishes_as n k _ = False"

text \<open>The time of the last publish to a topic under an identity key.\<close>

definition last_publish :: "string \<Rightarrow> string \<Rightarrow> timed_obs list \<Rightarrow> instant option" where
  "last_publish n k es =
     fold (\<lambda>e last. if publishes_as n k (fst e) then Some (snd e) else last) es None"

lemma publisher_at_apply:
  "map_option last_seen (publisher_at (apply_timed e st) n k) =
     (if publishes_as n k (fst e) then Some (snd e) else map_option last_seen (publisher_at st n k))"
proof (cases "fst e")
  case (AdminSnapshot names infos)
  then show ?thesis by (simp add: apply_timed_def publisher_at_def topic_at_admin)
next
  case (Publish topic peer ms)
  then show ?thesis
    by (simp add: apply_timed_def publisher_at_def topic_at_publish record_publish_def Let_def bt_get_upsert)
qed (simp_all add: apply_timed_def publisher_at_def)

lemma publisher_at_fold:
  "map_option last_seen (publisher_at (fold_obs es st) n k) =
     fold (\<lambda>e last. if publishes_as n k (fst e) then Some (snd e) else last) es
       (map_option last_seen (publisher_at st n k))"
  by (induction es arbitrary: st) (simp_all add: publisher_at_apply)

lemma publisher_at_start: "publisher_at (start_state cap) n k = None"
  by (simp add: publisher_at_def topic_at_def start_state_def state_defs)

lemma sum_list_over_map:
  assumes "bt_wf m"
  shows "sum_list (map (\<lambda>v. g v) (bt_values m)) = (\<Sum>n \<in> dom (bt_get m). g (the (bt_get m n)))"
proof -
  have "(\<Sum>n \<in> dom (bt_get m). g (the (bt_get m n))) = (\<Sum>n \<leftarrow> map fst m. g (the (bt_get m n)))"
    using assms by (simp add: bt_wf_distinct sum_list_distinct_conv_sum_set dom_map_of_conv_image_fst
        del: map_map)
  also have "\<dots> = sum_list (map (\<lambda>e. g (the (bt_get m (fst e)))) m)"
    by (simp add: comp_def)
  also have "map (\<lambda>e. g (the (bt_get m (fst e)))) m = map (\<lambda>e. g (snd e)) m"
    using assms by (auto simp: bt_wf_distinct)
  finally show ?thesis by (simp add: bt_values_def comp_def)
qed

lemma connected_publishers_card:
  assumes "maps_ok st"
  shows "connected_publishers st now = card {(n, k). \<exists>p. publisher_at st n k = Some p \<and>
    saturating_duration_since now (last_seen p) \<le> PUBLISHER_ACTIVE_WINDOW}"
proof -
  let ?P = "\<lambda>p. saturating_duration_since now (last_seen p) \<le> PUBLISHER_ACTIVE_WINDOW"
  let ?B = "\<lambda>n. {k. \<exists>p. publisher_at st n k = Some p \<and> ?P p}"
  have wf: "bt_wf (topics st)" using assms by (simp add: maps_ok_def)
  have fin: "finite (?B n)" for n
  proof (rule finite_subset)
    show "?B n \<subseteq> dom (bt_get (publishers (topic_at st n)))" by (auto simp: publisher_at_def)
    show "finite (dom (bt_get (publishers (topic_at st n))))" by (rule finite_dom_map_of)
  qed
  have topic: "length (filter ?P (bt_values (publishers t))) = card (?B n)"
    if "bt_get (topics st) n = Some t" for n t
    using that assms by (subst bt_count) (auto simp: maps_ok_def publisher_at_def topic_at_def)
  have "connected_publishers st now =
      sum_list (map (\<lambda>t. length (filter ?P (bt_values (publishers t)))) (bt_values (topics st)))"
    by (simp add: connected_publishers_def filter_concat length_concat comp_def)
  also have "\<dots> = (\<Sum>n \<in> dom (bt_get (topics st)). card (?B n))"
    unfolding sum_list_over_map [OF wf] by (rule sum.cong) (auto simp: topic)
  also have "\<dots> = card (SIGMA n : dom (bt_get (topics st)). ?B n)"
    by (rule card_SigmaI [symmetric]) (simp_all add: fin finite_dom_map_of)
  also have "(SIGMA n : dom (bt_get (topics st)). ?B n) =
      {(n, k). \<exists>p. publisher_at st n k = Some p \<and> ?P p}"
    by (auto simp: publisher_at_def topic_at_def default_topic_def split: option.splits)
  finally show ?thesis .
qed

text \<open>
  What "connected publishers" means: the number of pairs of a topic and an identity key
  whose last publish to that topic lies at most ten seconds back. A publisher active on several
  topics counts once for each.
\<close>

theorem connected_publishers_meaning:
  "connected_publishers (fold_obs es (start_state cap)) now =
     card {(n, k). \<exists>t. last_publish n k es = Some t \<and> now - t \<le> 10 * 10 ^ 9}"
proof -
  let ?st = "fold_obs es (start_state cap)"
  have seen: "last_publish n k es = map_option last_seen (publisher_at ?st n k)" for n k
    by (simp add: publisher_at_fold publisher_at_start last_publish_def)
  have window: "saturating_duration_since now t \<le> PUBLISHER_ACTIVE_WINDOW \<longleftrightarrow> now - t \<le> 10 * 10 ^ 9" for t
    by (simp add: saturating_duration_since_def PUBLISHER_ACTIVE_WINDOW_def from_secs_def nat_le_iff)
  show ?thesis
    unfolding connected_publishers_card [OF state_ok_maps_ok [OF fold_obs_ok]]
    by (rule arg_cong [of _ _ card]) (auto simp: seen window)
qed

end
