(* ===== verification/Rpc.thy ===== *)
theory Rpc
  imports Events "HOL-Library.Mapping"
begin

text \<open>
  \<^verbatim>\<open>src/proxy/forward.rs\<close> and what the proxied services share: a unary RPC as the proxy sees it, the
  forwarding method the macro \<open>proxy_service!\<close> generates, and the contract of a transparent RPC.

  The upstream server is a parameter: a function from the request to its answer, an error status
  (\<open>Inl\<close>) or a response (\<open>Inr\<close>). A handler returns the client's answer together with the
  observations it put into the sink, oldest first.
\<close>

record 'm grpc_request =
  rq_message :: 'm
  rq_metadata :: "(string \<times> string) list"
  rq_remote_addr :: "socket_addr option"

type_synonym ('m, 'e, 'r) upstream = "'m grpc_request \<Rightarrow> 'e + 'r"
type_synonym ('e, 'r) outcome = "('e + 'r) \<times> observation list"

definition forward_rpc :: "('m, 'e, 'r) upstream \<Rightarrow> 'm grpc_request \<Rightarrow> ('e, 'r) outcome" where
  "forward_rpc up request = (let result = up request in (result, []))"

subsection \<open>The contract\<close>

text \<open>
  A handler is transparent when the client gets exactly the upstream's answer and a failed call
  leaves no trace in the observed state.
\<close>

locale transparent_rpc =
  fixes handler :: "('m, 'e, 'r) upstream \<Rightarrow> 'm grpc_request \<Rightarrow> ('e, 'r) outcome"
  assumes answer: "fst (handler up request) = up request"
    and silent_failure: "up request = Inl status \<Longrightarrow> snd (handler up request) = []"
begin

text \<open>A client cannot tell a session through the proxy from one without it.\<close>

lemma session_answers: "map (fst \<circ> handler up) requests = map up requests"
  by (simp add: answer)

lemma observed_only_successes:
  assumes "obs \<in> set (concat (map (snd \<circ> handler up) requests))"
  shows "\<exists>request \<in> set requests. \<exists>response. up request = Inr response \<and> obs \<in> set (snd (handler up request))"
proof -
  from assms obtain request where r: "request \<in> set requests" "obs \<in> set (snd (handler up request))"
    by auto
  then show ?thesis
    by (cases "up request") (auto simp: silent_failure)
qed

end

interpretation forwarding: transparent_rpc forward_rpc
  by unfold_locales (simp_all add: forward_rpc_def)

subsection \<open>Hash maps on the wire\<close>

text \<open>
  A protobuf map field arrives as a hash map, whose iteration order is unspecified: it is a
  parameter, of which only this contract is known.
\<close>

locale map_iteration =
  fixes iter :: "('k, 'v) mapping \<Rightarrow> ('k \<times> 'v) list"
  assumes iter_distinct: "finite (Mapping.keys m) \<Longrightarrow> distinct (map fst (iter m))"
    and iter_set: "finite (Mapping.keys m) \<Longrightarrow> set (iter m) = Mapping.entries m"
begin

lemma iter_map_of: "finite (Mapping.keys m) \<Longrightarrow> map_of (iter m) k = Mapping.lookup m k"
proof -
  assume fin: "finite (Mapping.keys m)"
  then have "map_of (iter m) k = Some v \<longleftrightarrow> Mapping.lookup m k = Some v" for v
    using iter_distinct [OF fin] iter_set [OF fin] by (auto intro: in_entriesI dest: in_entriesD)
  then show ?thesis by (metis option.exhaust)
qed

end

text \<open>Key order is one such order.\<close>

definition hash_entries :: "('k::linorder, 'v) mapping \<Rightarrow> ('k \<times> 'v) list" where
  "hash_entries m = Mapping.ordered_entries m"

interpretation key_order: map_iteration hash_entries
  by unfold_locales (simp_all add: hash_entries_def)

end
