(* ===== verification/Convert.thy ===== *)
theory Convert
  imports State_Props Rpc
begin

text \<open>
  \<^verbatim>\<open>src/monitor/convert.rs\<close>: the state as it crosses the wire. The records are the messages of
  \<^verbatim>\<open>proto/monitor/v1/monitor.proto\<close>; a protobuf map is an unordered hash map, modelled as a
  \<open>mapping\<close>. Instants are sent as an age in milliseconds and rebuilt against the receiver's clock.
\<close>

subsection \<open>Wire messages\<close>

record ProtoPublisher =
  pp_published :: u64
  pp_millis_since_last_seen :: u64

record ProtoTopic =
  pt_exists :: bool
  pt_publish_count :: u64
  pt_publishers :: "(string, ProtoPublisher) mapping"

record ProtoSubscription =
  ps_exists :: bool
  ps_topic :: "string option"
  ps_delivered :: u64
  ps_acked :: u64
  ps_live_consumers :: u64

record ProtoAttribute =
  pa_key :: string
  pa_value :: string

record ProtoRecentMessage =
  pr_seq :: u64
  pr_topic :: string
  pr_data :: bytes
  pr_attributes :: "ProtoAttribute list"
  pr_original_len :: u64
  pr_truncated :: bool
  pr_millis_since_seen :: u64

record StateSnapshot =
  ss_topics :: "(string, ProtoTopic) mapping"
  ss_subscriptions :: "(string, ProtoSubscription) mapping"
  ss_recent_messages :: "ProtoRecentMessage list"
  ss_recent_buffer_capacity :: u64

subsection \<open>Collecting into maps\<close>

text \<open>
  \<open>collect()\<close> into a hash map or a \<open>BTreeMap\<close> inserts the pairs one by one, a later pair
  replacing an earlier one of the same key. A hash map is iterated in an unspecified order;
  \<open>bt_collect_order\<close> below shows that the order does not matter, so the model iterates in key order.
\<close>

definition hash_collect :: "('k \<times> 'v) list \<Rightarrow> ('k, 'v) mapping" where
  "hash_collect kvs = fold (\<lambda>(k, v) m. Mapping.update k v m) kvs Mapping.empty"

definition bt_collect :: "('k::linorder \<times> 'v) list \<Rightarrow> ('k, 'v) btree_map" where
  "bt_collect kvs = fold (\<lambda>(k, v) m. bt_insert k v m) kvs []"

subsection \<open>Encoding\<close>

definition age_to_wire :: "instant \<Rightarrow> instant \<Rightarrow> u64" where
  "age_to_wire now t = u64_try_from_or_max (as_millis (saturating_duration_since now t))"

definition topic_to_wire :: "Topic \<Rightarrow> instant \<Rightarrow> ProtoTopic" where
  "topic_to_wire topic now =
     \<lparr>pt_exists = topic_exists topic, pt_publish_count = publish_count topic,
      pt_publishers = hash_collect (map (\<lambda>(peer, pubr).
        (peer, \<lparr>pp_published = published pubr,
                pp_millis_since_last_seen = age_to_wire now (last_seen pubr)\<rparr>)) (publishers topic))\<rparr>"

definition subscription_to_wire :: "Subscription \<Rightarrow> ProtoSubscription" where
  "subscription_to_wire sub =
     \<lparr>ps_exists = sub_exists sub, ps_topic = sub_topic sub, ps_delivered = delivered sub,
      ps_acked = acked sub, ps_live_consumers = live_consumers sub\<rparr>"

definition message_to_wire :: "RecentMessage \<Rightarrow> instant \<Rightarrow> ProtoRecentMessage" where
  "message_to_wire message now =
     \<lparr>pr_seq = rm_seq message, pr_topic = rm_topic message, pr_data = rm_data message,
      pr_attributes = map (\<lambda>(key, value). \<lparr>pa_key = key, pa_value = value\<rparr>) (rm_attributes message),
      pr_original_len = of_nat (rm_original_len message), pr_truncated = rm_truncated message,
      pr_millis_since_seen = age_to_wire now (rm_seen message)\<rparr>"

definition to_wire :: "AppState \<Rightarrow> instant \<Rightarrow> StateSnapshot" where
  "to_wire state now =
     \<lparr>ss_topics = hash_collect (map (\<lambda>(name, topic). (name, topic_to_wire topic now)) (topics state)),
      ss_subscriptions =
        hash_collect (map (\<lambda>(name, sub). (name, subscription_to_wire sub)) (subscriptions state)),
      ss_recent_messages = map (\<lambda>message. message_to_wire message now) (recent_messages state),
      ss_recent_buffer_capacity = of_nat (recent_buffer_capacity state)\<rparr>"

subsection \<open>Decoding\<close>

text \<open>\<open>lo\<close> is the earliest \<open>Instant\<close> of the receiving platform.\<close>

definition age_from_wire :: "instant \<Rightarrow> instant \<Rightarrow> u64 \<Rightarrow> instant" where
  "age_from_wire lo now ms = (case checked_sub lo now (from_millis ms) of None \<Rightarrow> now | Some t \<Rightarrow> t)"

definition topic_from_wire :: "instant \<Rightarrow> ProtoTopic \<Rightarrow> instant \<Rightarrow> Topic" where
  "topic_from_wire lo topic now =
     \<lparr>topic_exists = pt_exists topic, publish_count = pt_publish_count topic,
      publishers = bt_collect (map (\<lambda>(peer, pubr).
        (peer, \<lparr>published = pp_published pubr,
                last_seen = age_from_wire lo now (pp_millis_since_last_seen pubr)\<rparr>))
        (hash_entries (pt_publishers topic)))\<rparr>"

definition subscription_from_wire :: "ProtoSubscription \<Rightarrow> Subscription" where
  "subscription_from_wire sub =
     \<lparr>sub_exists = ps_exists sub, sub_topic = ps_topic sub, delivered = ps_delivered sub,
      acked = ps_acked sub, live_consumers = ps_live_consumers sub\<rparr>"

definition message_from_wire :: "instant \<Rightarrow> ProtoRecentMessage \<Rightarrow> instant \<Rightarrow> RecentMessage" where
  "message_from_wire lo message now =
     \<lparr>rm_seq = pr_seq message, rm_topic = pr_topic message, rm_data = pr_data message,
      rm_attributes = map (\<lambda>attr. (pa_key attr, pa_value attr)) (pr_attributes message),
      rm_original_len = unat (pr_original_len message), rm_truncated = pr_truncated message,
      rm_seen = age_from_wire lo now (pr_millis_since_seen message)\<rparr>"

definition from_wire :: "instant \<Rightarrow> StateSnapshot \<Rightarrow> instant \<Rightarrow> AppState" where
  "from_wire lo snapshot now =
     default_state\<lparr>
      topics := bt_collect (map (\<lambda>(name, topic). (name, topic_from_wire lo topic now))
        (hash_entries (ss_topics snapshot))),
      subscriptions := bt_collect (map (\<lambda>(name, sub). (name, subscription_from_wire sub))
        (hash_entries (ss_subscriptions snapshot))),
      recent_messages := map (\<lambda>message. message_from_wire lo message now) (ss_recent_messages snapshot),
      recent_buffer_capacity := unat (ss_recent_buffer_capacity snapshot)\<rparr>"

subsection \<open>Maps across the wire\<close>

lemma hash_collect_lookup: "Mapping.lookup (hash_collect kvs) k = map_of (rev kvs) k"
proof -
  have "Mapping.lookup (fold (\<lambda>(k, v) m. Mapping.update k v m) kvs m) k =
      (case map_of (rev kvs) k of None \<Rightarrow> Mapping.lookup m k | Some v \<Rightarrow> Some v)" for m
    by (induction kvs arbitrary: m)
      (auto simp: lookup_update' map_add_def split: option.splits prod.splits)
  then show ?thesis by (simp add: hash_collect_def lookup_empty split: option.split)
qed

lemma bt_collect_get: "bt_get (bt_collect kvs) k = map_of (rev kvs) k"
proof -
  have "bt_get (fold (\<lambda>(k, v) m. bt_insert k v m) kvs m) k =
      (case map_of (rev kvs) k of None \<Rightarrow> bt_get m k | Some v \<Rightarrow> Some v)" for m
    by (induction kvs arbitrary: m)
      (auto simp: bt_get_insert map_add_def split: option.splits prod.splits)
  then show ?thesis by (simp add: bt_collect_def split: option.split)
qed

lemma bt_collect_wf [simp]: "bt_wf (bt_collect kvs)"
proof -
  have "bt_wf m \<Longrightarrow> bt_wf (fold (\<lambda>(k, v) m. bt_insert k v m) kvs m)" for m :: "('a::linorder, 'b) btree_map"
    by (induction kvs arbitrary: m) auto
  then show ?thesis by (simp add: bt_collect_def)
qed

lemma map_of_rev_distinct: "distinct (map fst kvs) \<Longrightarrow> map_of (rev kvs) = map_of kvs"
  by (subst map_of_inject_set) (simp_all add: rev_map [symmetric])

text \<open>Iteration order does not matter: any enumeration of the same entries collects to the same map.\<close>

lemma bt_collect_order:
  assumes "distinct (map fst kvs)" and "set kvs = set kvs'" and "distinct (map fst kvs')"
  shows "bt_collect kvs = bt_collect kvs'"
proof (rule bt_ext)
  have "map_of kvs = map_of kvs'" using assms by (simp add: map_of_inject_set)
  with assms show "bt_get (bt_collect kvs) = bt_get (bt_collect kvs')"
    by (simp add: fun_eq_iff bt_collect_get map_of_rev_distinct)
qed simp_all

lemma hash_collect_finite [simp]: "finite (Mapping.keys (hash_collect kvs))"
proof -
  have "finite (Mapping.keys m) \<Longrightarrow> finite (Mapping.keys (fold (\<lambda>(k, v) m. Mapping.update k v m) kvs m))" for m
    by (induction kvs arbitrary: m) auto
  then show ?thesis by (simp add: hash_collect_def)
qed

text \<open>
  The whole trip of a map: collect the converted entries into a hash map, iterate it, convert back
  and collect into an ordered map. The result is the original with its values converted twice.
\<close>

lemma wire_map_trip:
  assumes "bt_wf m"
  shows "bt_collect (map (\<lambda>(k, v). (k, g v)) (hash_entries (hash_collect (map (\<lambda>(k, v). (k, f v)) m)))) =
    bt_map (\<lambda>_ v. g (f v)) m"
proof (rule bt_ext)
  let ?h = "hash_collect (map (\<lambda>(k, v). (k, f v)) m)"
  have keys: "map fst (map (\<lambda>(k, v). (k, g v)) (hash_entries ?h)) = map fst (hash_entries ?h)"
    by (simp add: comp_def case_prod_unfold)
  have distinct: "distinct (map fst (map (\<lambda>(k, v). (k, g v)) (hash_entries ?h)))"
    unfolding keys by (simp add: hash_entries_def)
  have "distinct (map fst (map (\<lambda>(k, v). (k, f v)) m))"
    using bt_wf_distinct [OF assms] by (simp add: comp_def case_prod_unfold)
  then have h: "Mapping.lookup ?h k = map_option f (bt_get m k)" for k
    by (simp add: hash_collect_lookup map_of_rev_distinct map_of_map)
  show "bt_get (bt_collect (map (\<lambda>(k, v). (k, g v)) (hash_entries ?h))) = bt_get (bt_map (\<lambda>_ v. g (f v)) m)"
    using distinct
    by (simp add: fun_eq_iff bt_collect_get map_of_rev_distinct map_of_map key_order.iter_map_of h bt_get_map
        option.map_comp comp_def)
qed (use assms in simp_all)

subsection \<open>The round trip\<close>

text \<open>\<open>rebuilt\<close> is the instant the receiver reconstructs from an instant of the sender.\<close>

definition rebuilt :: "instant \<Rightarrow> instant \<Rightarrow> instant \<Rightarrow> instant \<Rightarrow> instant" where
  "rebuilt lo now later t = age_from_wire lo later (age_to_wire now t)"

definition map_instants :: "(instant \<Rightarrow> instant) \<Rightarrow> AppState \<Rightarrow> AppState" where
  "map_instants f st = st\<lparr>
     topics := bt_map (\<lambda>_ t. t\<lparr>publishers := bt_map (\<lambda>_ p. p\<lparr>last_seen := f (last_seen p)\<rparr>) (publishers t)\<rparr>)
       (topics st),
     recent_messages := map (\<lambda>m. m\<lparr>rm_seen := f (rm_seen m)\<rparr>) (recent_messages st)\<rparr>"

text \<open>Lengths of in-memory data and the configured capacity fit a \<open>u64\<close>.\<close>

definition in_memory :: "AppState \<Rightarrow> bool" where
  "in_memory st \<longleftrightarrow> recent_buffer_capacity st < 2 ^ 64 \<and>
     (\<forall>m \<in> set (recent_messages st). rm_original_len m < 2 ^ 64)"

lemma rebuild_record:
  "\<lparr>published = published p, last_seen = x\<rparr> = p\<lparr>last_seen := x\<rparr>"
  "\<lparr>topic_exists = topic_exists t, publish_count = publish_count t, publishers = y\<rparr> = t\<lparr>publishers := y\<rparr>"
  by simp_all

lemma topic_trip:
  assumes "bt_wf (publishers t)"
  shows "topic_from_wire lo (topic_to_wire t now) later =
    t\<lparr>publishers := bt_map (\<lambda>_ p. p\<lparr>last_seen := rebuilt lo now later (last_seen p)\<rparr>) (publishers t)\<rparr>"
  using wire_map_trip [OF assms,
      of "\<lambda>p. \<lparr>published = pp_published p, last_seen = age_from_wire lo later (pp_millis_since_last_seen p)\<rparr>"
         "\<lambda>p. \<lparr>pp_published = published p, pp_millis_since_last_seen = age_to_wire now (last_seen p)\<rparr>"]
  by (simp add: topic_from_wire_def topic_to_wire_def rebuilt_def rebuild_record)

lemma subscription_trip: "subscription_from_wire (subscription_to_wire s) = s"
  by (simp add: subscription_from_wire_def subscription_to_wire_def)

lemma message_trip:
  "rm_original_len m < 2 ^ 64 \<Longrightarrow>
     message_from_wire lo (message_to_wire m now) later = m\<lparr>rm_seen := rebuilt lo now later (rm_seen m)\<rparr>"
  by (simp add: message_from_wire_def message_to_wire_def rebuilt_def unat_of_nat_u64 comp_def case_prod_unfold)

lemma bt_map_cong:
  "(\<And>k v. (k, v) \<in> set m \<Longrightarrow> f k v = g k v) \<Longrightarrow> bt_map f m = bt_map g m"
  by (induction m) auto

lemma wire_trip:
  assumes "maps_ok st" and "in_memory st"
  shows "from_wire lo (to_wire st now) later = (map_instants (rebuilt lo now later) st)\<lparr>next_seq := 0\<rparr>"
proof -
  let ?tf = "\<lambda>t. topic_from_wire lo (topic_to_wire t now) later"
  let ?tr = "\<lambda>_ t. t\<lparr>publishers := bt_map (\<lambda>_ p. p\<lparr>last_seen := rebuilt lo now later (last_seen p)\<rparr>) (publishers t)\<rparr>"
  have wf: "bt_wf (topics st)" "bt_wf (subscriptions st)" using assms by (simp_all add: maps_ok_def)
  have "?tf t = ?tr n t" if "(n, t) \<in> set (topics st)" for n t
    using that assms(1) wf by (intro topic_trip) (auto simp: maps_ok_def bt_get_mem)
  then have "bt_map (\<lambda>_. ?tf) (topics st) = bt_map ?tr (topics st)"
    by (rule bt_map_cong)
  moreover have "map (\<lambda>m. message_from_wire lo (message_to_wire m now) later) (recent_messages st) =
      map (\<lambda>m. m\<lparr>rm_seen := rebuilt lo now later (rm_seen m)\<rparr>) (recent_messages st)"
    using assms(2) by (simp add: in_memory_def message_trip)
  moreover have "bt_map (\<lambda>_ s. s) (subscriptions st) = subscriptions st"
    by (rule bt_map_ident) simp
  ultimately show ?thesis
    using assms(2)
      wire_map_trip [OF wf(1), of "\<lambda>t. topic_from_wire lo t later" "\<lambda>t. topic_to_wire t now"]
      wire_map_trip [OF wf(2), of subscription_from_wire subscription_to_wire]
    by (simp add: from_wire_def to_wire_def map_instants_def default_state_def in_memory_def
        unat_of_nat_u64 subscription_trip comp_def)
qed

text \<open>
  Claim C8. A state that crosses the wire arrives unchanged but for its clock readings: every map,
  counter, message and flag survives exactly, every instant is rebuilt from its age, and only the
  sender's sequence counter is left behind.
\<close>

theorem wire_round_trip:
  assumes "maps_ok st" and "in_memory st"
  shows "from_wire lo (to_wire st now) later = (map_instants (rebuilt lo now later) st)\<lparr>next_seq := 0\<rparr>"
  by (rule wire_trip [OF assms])

text \<open>A state with one topic and one publisher, last seen at time 4.\<close>

definition one_topic :: AppState where
  "one_topic = fold_obs [(Publish ''t'' None [\<lparr>pm_data = [1], pm_attributes = [(''k'', ''v'')],
     pm_original_len = 1, pm_truncated = False\<rparr>], 4)] (start_state 7)"

lemma one_topic_ok: "maps_ok one_topic" "in_memory one_topic"
proof -
  show "maps_ok one_topic"
    unfolding one_topic_def by (rule state_ok_maps_ok [OF fold_obs_ok])
  show "in_memory one_topic"
    by (simp add: one_topic_def in_memory_def apply_timed_def apply_publish_eq start_state_def default_state_def)
qed

theorem wire_round_trip_witness:
  "from_wire (- 100) (to_wire one_topic 10) 50 = (map_instants (rebuilt (- 100) 10 50) one_topic)\<lparr>next_seq := 0\<rparr> \<and>
   map rm_attributes (recent_messages (from_wire (- 100) (to_wire one_topic 10) 50)) = [[(''k'', ''v'')]]"
  using wire_round_trip [OF one_topic_ok, of "- 100" 10 50]
  by (simp add: map_instants_def one_topic_def apply_timed_def apply_publish_eq start_state_def default_state_def)

subsection \<open>Clocks\<close>

lemma map_instants_publisher_at:
  "publisher_at ((map_instants f st)\<lparr>next_seq := s\<rparr>) n k =
     map_option (\<lambda>p. p\<lparr>last_seen := f (last_seen p)\<rparr>) (publisher_at st n k)"
  by (simp add: publisher_at_def topic_at_def map_instants_def bt_get_map default_topic_def split: option.split)

lemma map_instants_maps_ok: "maps_ok st \<Longrightarrow> maps_ok ((map_instants f st)\<lparr>next_seq := s\<rparr>)"
  by (auto simp: maps_ok_def map_instants_def bt_get_map)

lemma rebuilt_representable:
  assumes "nat (now - t) div 1000000 < 2 ^ 64" and "lo \<le> later - int (nat (now - t))"
  shows "rebuilt lo now later t = later - 1000000 * int (nat (now - t) div 1000000)"
proof -
  have "1000000 * (nat (now - t) div 1000000) \<le> nat (now - t)" by simp
  then have "lo \<le> later - int (1000000 * (nat (now - t) div 1000000))"
    using assms(2) by linarith
  with assms(1) show ?thesis
    by (simp add: rebuilt_def age_from_wire_def age_to_wire_def checked_sub_def from_millis_def as_millis_def
        saturating_duration_since_def u64_try_from_or_max_def unat_of_nat_u64 mult.commute)
qed

lemma rebuilt_age_live:
  assumes "nat (now - t) div 1000000 < 2 ^ 64" and "lo \<le> later - int (nat (now - t))"
  shows "saturating_duration_since later (rebuilt lo now later t) \<le> PUBLISHER_ACTIVE_WINDOW \<longleftrightarrow>
    now - t < 10001 * 10 ^ 6"
proof -
  have "saturating_duration_since later (rebuilt lo now later t) = 1000000 * (nat (now - t) div 1000000)"
    by (simp add: rebuilt_representable [OF assms] saturating_duration_since_def nat_mult_distrib)
  moreover have "nat (now - t) div 1000000 < 10001 \<longleftrightarrow> nat (now - t) < 10001 * 1000000"
    by (rule div_less_iff_less_mult) simp
  moreover have "nat (now - t) < 10001000000 \<longleftrightarrow> now - t < 10001000000"
    by arith
  ultimately have "saturating_duration_since later (rebuilt lo now later t) \<le> 10000000000 \<longleftrightarrow>
      now - t < 10001000000"
    by auto
  then show ?thesis by (simp add: PUBLISHER_ACTIVE_WINDOW_def from_secs_def)
qed


lemma one_topic_publisher:
  "publisher_at one_topic n k =
     (if n = ''t'' \<and> k = ''unknown'' then Some \<lparr>published = 1, last_seen = 4\<rparr> else None)"
  by (simp add: one_topic_def apply_timed_def publisher_at_def topic_at_def apply_publish_eq start_state_def
      default_state_def bt_get_upsert record_publish_def Let_def default_topic_def peer_key_def bt_upsert_def)


text \<open>
  Where the receiver's clock does not reach back to the rebuilt instant, the fallback to
  \<open>now\<close> makes an old publisher look freshly seen: whatever its age, the UI counts it as connected.
\<close>

theorem unrepresentable_age_revives:
  assumes "maps_ok st" and "in_memory st" and "publisher_at st n k = Some p"
    and "later - int (from_millis (age_to_wire now (last_seen p))) < lo"
  shows "publisher_at (from_wire lo (to_wire st now) later) n k = Some (p\<lparr>last_seen := later\<rparr>) \<and>
    saturating_duration_since later later \<le> PUBLISHER_ACTIVE_WINDOW"
  unfolding wire_trip [OF assms(1,2)] map_instants_publisher_at
  using assms(3,4)
  by (simp add: rebuilt_def age_from_wire_def checked_sub_def saturating_duration_since_def)

theorem unrepresentable_age_revives_witness:
  "publisher_at (from_wire 0 (to_wire one_topic (10 ^ 15)) (10 ^ 12)) ''t'' ''unknown'' =
     Some \<lparr>published = 1, last_seen = 10 ^ 12\<rparr>"
proof -
  have "10 ^ 12 - int (from_millis (age_to_wire (10 ^ 15) 4)) < 0"
    by (simp add: age_to_wire_def from_millis_def as_millis_def saturating_duration_since_def
        u64_try_from_or_max_def)
  then show ?thesis
    using unrepresentable_age_revives [OF one_topic_ok, of "''t''" "''unknown''" _ "10 ^ 12" "10 ^ 15" 0]
    by (simp add: one_topic_publisher)
qed

text \<open>
  The encoding is independent of the sender's clock: shifting every instant and the time
  of sending by the same amount yields the same snapshot.
\<close>

theorem to_wire_clock_independent:
  "to_wire (map_instants (\<lambda>t. t + d) st) (now + d) = to_wire st now"
proof -
  have age: "age_to_wire (now + d) (t + d) = age_to_wire now t" for t
    by (simp add: age_to_wire_def saturating_duration_since_def)
  have maps: "map (\<lambda>(k, v). (k, g v)) (bt_map (\<lambda>_. h) m) = map (\<lambda>(k, v). (k, g (h v))) m"
    for g :: "'a \<Rightarrow> 'b" and h :: "'c \<Rightarrow> 'a" and m :: "('k \<times> 'c) list"
    by (induction m) auto
  show ?thesis
    by (simp add: to_wire_def map_instants_def topic_to_wire_def message_to_wire_def maps age comp_def)
qed

end
