(* ===== verification/Client.thy ===== *)
theory Client
  imports Convert
begin

text \<open>
  \<^verbatim>\<open>src/monitor/server.rs\<close> and \<^verbatim>\<open>src/monitor/client.rs\<close>: the stream of snapshots from the monitor to a
  user interface, and the supervised connection at the receiving end, as a state machine whose events
  are the completions the task waits for.
\<close>

subsection \<open>The server\<close>

text \<open>\<open>stream_state\<close>: each value of the watch channel, encoded at the time it is sent.\<close>

definition stream_state :: "(AppState \<times> instant) list \<Rightarrow> StateSnapshot list" where
  "stream_state snapshots = map (\<lambda>(state, now). to_wire state now) snapshots"

subsection \<open>The client\<close>

definition RECONNECT_DELAY :: duration where
  "RECONNECT_DELAY = from_secs 1"

datatype link_at =
    Dialing        \<comment> \<open>in \<open>connect()\<close>\<close>
  | Subscribing    \<comment> \<open>in \<open>stream_state()\<close>\<close>
  | Pumping        \<comment> \<open>in \<open>stream.message()\<close>\<close>
  | Backoff        \<comment> \<open>in \<open>sleep(RECONNECT_DELAY)\<close>\<close>
  | Finished       \<comment> \<open>\<open>supervise\<close> has returned\<close>

text \<open>
  The two watch channels' values, where the task is suspended, and whether the interface still holds
  the receiver of the snapshots. \<open>received\<close> records the snapshots decoded and when.
\<close>

record link =
  link_state :: AppState
  link_connected :: bool
  link_at :: link_at
  ui_alive :: bool
  received :: "(StateSnapshot \<times> instant) list"

datatype link_event =
    Dialed | DialFailed | Subscribed | SubscribeFailed | SnapshotArrived StateSnapshot instant
  | StreamEnded | StreamFailed | BackoffElapsed | UiGone

definition link_start :: link where
  "link_start = \<lparr>link_state = default_state, link_connected = False, link_at = Dialing, ui_alive = True,
     received = []\<rparr>"

text \<open>After \<open>stream_once\<close> has returned, with or without an error.\<close>

definition connection_over :: "link \<Rightarrow> link" where
  "connection_over l =
     (let l = l\<lparr>link_connected := False\<rparr>
      in if \<not> ui_alive l then l\<lparr>link_at := Finished\<rparr> else l\<lparr>link_at := Backoff\<rparr>)"

fun link_step :: "instant \<Rightarrow> link_event \<Rightarrow> link \<Rightarrow> link" where
  "link_step lo UiGone l = l\<lparr>ui_alive := False\<rparr>"
| "link_step lo Dialed l =
     (if link_at l = Dialing then l\<lparr>link_connected := True, link_at := Subscribing\<rparr> else l)"
| "link_step lo DialFailed l = (if link_at l = Dialing then connection_over l else l)"
| "link_step lo Subscribed l = (if link_at l = Subscribing then l\<lparr>link_at := Pumping\<rparr> else l)"
| "link_step lo SubscribeFailed l = (if link_at l = Subscribing then connection_over l else l)"
| "link_step lo (SnapshotArrived snapshot now) l =
     (if link_at l = Pumping
      then (if ui_alive l
            then l\<lparr>link_state := from_wire lo snapshot now, received := received l @ [(snapshot, now)]\<rparr>
            else connection_over l)
      else l)"
| "link_step lo StreamEnded l = (if link_at l = Pumping then connection_over l else l)"
| "link_step lo StreamFailed l = (if link_at l = Pumping then connection_over l else l)"
| "link_step lo BackoffElapsed l = (if link_at l = Backoff then l\<lparr>link_at := Dialing\<rparr> else l)"

subsection \<open>The invariant\<close>

definition link_inv :: "instant \<Rightarrow> link \<Rightarrow> bool" where
  "link_inv lo l \<longleftrightarrow>
     (link_connected l \<longleftrightarrow> link_at l = Subscribing \<or> link_at l = Pumping) \<and>
     link_state l = (if received l = [] then default_state
       else from_wire lo (fst (last (received l))) (snd (last (received l)))) \<and>
     (link_at l = Finished \<longrightarrow> \<not> ui_alive l)"

lemma connection_over_inv: "link_inv lo l \<Longrightarrow> link_inv lo (connection_over l)"
  by (simp add: link_inv_def connection_over_def Let_def)

lemma link_step_inv: "link_inv lo l \<Longrightarrow> link_inv lo (link_step lo e l)"
  by (cases e) (simp_all add: connection_over_inv, simp_all add: link_inv_def)

lemma link_start_inv: "link_inv lo link_start"
  by (simp add: link_inv_def link_start_def)

interpretation linking: event_machine "link_step lo" "link_inv lo" link_start
  by unfold_locales (simp_all add: link_step_inv link_start_inv)

subsection \<open>Properties\<close>

text \<open>
  The interface never sees anything but the last snapshot: after any run of the supervisor,
  the state shown is the initial empty one or the decoding of the last snapshot received on any
  connection, and the indicator says connected exactly while a connection is up.
\<close>

theorem link_shows_last_snapshot:
  "let l = fold (link_step lo) events link_start in
     link_state l = (if received l = [] then default_state
       else from_wire lo (fst (last (received l))) (snd (last (received l)))) \<and>
     (link_connected l \<longleftrightarrow> link_at l = Subscribing \<or> link_at l = Pumping)"
proof -
  have "link_inv lo (fold (link_step lo) events link_start)" by (rule linking.reachable_inv)
  then show ?thesis by (simp only: link_inv_def Let_def)
qed

lemma link_recovers:
  assumes "link_inv lo l" and "ui_alive l"
  shows "\<exists>es. UiGone \<notin> set es \<and> link_at (fold (link_step lo) es l) = Pumping \<and> ui_alive (fold (link_step lo) es l)"
proof -
  have dial: "\<exists>es. UiGone \<notin> set es \<and> link_at (fold (link_step lo) es l') = Pumping \<and> ui_alive (fold (link_step lo) es l')"
    if "link_at l' = Dialing" "ui_alive l'" for l'
    using that by (intro exI [of _ "[Dialed, Subscribed]"]) simp
  show ?thesis
  proof (cases "link_at l")
    case Dialing
    then show ?thesis using dial assms(2) by blast
  next
    case Subscribing
    then show ?thesis using assms(2) by (intro exI [of _ "[Subscribed]"]) simp
  next
    case Pumping
    then show ?thesis using assms(2) by (intro exI [of _ "[]"]) simp
  next
    case Backoff
    then show ?thesis using assms(2) by (intro exI [of _ "[BackoffElapsed, Dialed, Subscribed]"]) simp
  next
    case Finished
    with assms show ?thesis by (simp add: link_inv_def)
  qed
qed

text \<open>
  The supervisor never gives up: from every state a run can reach while the interface is
  there, whatever failed before, there is a continuation without the interface leaving in which the
  next snapshot sent is shown.
\<close>

theorem supervisor_never_gives_up:
  assumes "l = fold (link_step lo) events link_start" and "ui_alive l"
  shows "\<exists>es. UiGone \<notin> set es \<and>
    link_state (fold (link_step lo) (es @ [SnapshotArrived snapshot now]) l) = from_wire lo snapshot now"
proof -
  have "link_inv lo l" unfolding assms(1) by (rule linking.reachable_inv)
  from link_recovers [OF this assms(2)] obtain es where "UiGone \<notin> set es"
    "link_at (fold (link_step lo) es l) = Pumping" "ui_alive (fold (link_step lo) es l)" by blast
  then show ?thesis by (intro exI [of _ es]) simp
qed

theorem supervisor_never_gives_up_witness:
  "\<exists>es. UiGone \<notin> set es \<and>
    link_state (fold (link_step 0) (es @ [SnapshotArrived (to_wire default_state 0) 5])
      (fold (link_step 0) [Dialed, SubscribeFailed] link_start)) = from_wire 0 (to_wire default_state 0) 5"
  by (rule supervisor_never_gives_up [OF refl]) (simp add: link_start_def connection_over_def)

end
