(* ===== verification/Observer.thy ===== *)
theory Observer
  imports State_Props "HOL-Library.Sublist"
begin

text \<open>
  \<^verbatim>\<open>src/observe/state.rs\<close>, second part: the task that owns the state (\<open>start\<close> and \<open>run\<close>), as a
  step relation. Producers (the proxy's handlers, the poller) put observations into a bounded
  channel at any moment; the task receives one, drains whatever else is available, trims the
  message buffer, publishes a snapshot and waits again.
\<close>

datatype phase =
    Waiting            \<comment> \<open>suspended in \<open>rx.recv()\<close>\<close>
  | Draining instant   \<comment> \<open>in the \<open>try_recv\<close> loop, with the \<open>now\<close> of the burst\<close>
  | Stopped            \<comment> \<open>the loop has ended\<close>

text \<open>
  \<open>snapshots\<close> lists every value sent on the \<open>watch\<close> channel, newest last; a reader sees the last
  one. \<open>accepted\<close> and \<open>folded\<close> only record history: the observations the channel took in, and
  those applied to the state with their timestamps.
\<close>

record observer =
  chan :: "observation channel"
  owned :: AppState
  phase_of :: phase
  clock :: instant
  readers :: nat
  snapshots :: "AppState list"
  accepted :: "observation list"
  folded :: "timed_obs list"

definition observer_start :: "nat \<Rightarrow> instant \<Rightarrow> observer" where
  "observer_start recent_buffer t0 =
     \<lparr>chan = channel_new 8192, owned = start_state recent_buffer, phase_of = Waiting, clock = t0,
      readers = 1, snapshots = [default_state], accepted = [], folded = []\<rparr>"

text \<open>A producer's \<open>sink.observe(observation)\<close>.\<close>

definition produce :: "observation \<Rightarrow> observer \<Rightarrow> observer" where
  "produce obs ob =
     (let (ch, sent) = try_send obs (chan ob)
      in ob\<lparr>chan := ch, accepted := (if sent then accepted ob @ [obs] else accepted ob)\<rparr>)"

text \<open>The two ways an observation is taken from the channel and applied.\<close>

definition fold_one :: "observation \<Rightarrow> instant \<Rightarrow> observation channel \<Rightarrow> observer \<Rightarrow> observer" where
  "fold_one obs now ch ob =
     ob\<lparr>chan := ch, owned := apply_obs obs now (owned ob), phase_of := Draining now,
        clock := now, folded := folded ob @ [(obs, now)]\<rparr>"

text \<open>Dropping the receiver closes the channel for the producers.\<close>

definition stop :: "observer \<Rightarrow> observer" where
  "stop ob = ob\<lparr>phase_of := Stopped, chan := (chan ob)\<lparr>ch_receiver_alive := False\<rparr>\<rparr>"

text \<open>The end of a burst: trim, then send a clone, ending the task when no reader is left.\<close>

definition end_burst :: "nat \<Rightarrow> observer \<Rightarrow> observer" where
  "end_burst recent_buffer ob =
     (let ob = ob\<lparr>owned := trim_recent recent_buffer (owned ob)\<rparr>
      in if readers ob = 0 then stop ob
         else ob\<lparr>snapshots := snapshots ob @ [owned ob], phase_of := Waiting\<rparr>)"

inductive observer_step :: "nat \<Rightarrow> observer \<Rightarrow> observer \<Rightarrow> bool" for recent_buffer where
  emit: "observer_step recent_buffer ob (produce obs ob)"
| receive: "phase_of ob = Waiting \<Longrightarrow> try_recv (chan ob) = Some (obs, ch) \<Longrightarrow> clock ob \<le> now \<Longrightarrow>
     observer_step recent_buffer ob (fold_one obs now ch ob)"
| drain: "phase_of ob = Draining now \<Longrightarrow> try_recv (chan ob) = Some (obs, ch) \<Longrightarrow>
     observer_step recent_buffer ob (fold_one obs now ch ob)"
| snapshot: "phase_of ob = Draining now \<Longrightarrow> try_recv (chan ob) = None \<Longrightarrow>
     observer_step recent_buffer ob (end_burst recent_buffer ob)"
| senders_gone: "phase_of ob = Waiting \<Longrightarrow> try_recv (chan ob) = None \<Longrightarrow>
     observer_step recent_buffer ob (stop ob)"
| reader_joins: "readers ob > 0 \<Longrightarrow> observer_step recent_buffer ob (ob\<lparr>readers := readers ob + 1\<rparr>)"
| reader_leaves: "observer_step recent_buffer ob (ob\<lparr>readers := readers ob - 1\<rparr>)"

inductive_cases observer_stepE: "observer_step recent_buffer ob ob'"

inductive observer_reachable :: "nat \<Rightarrow> observer \<Rightarrow> bool" for recent_buffer where
  start: "observer_reachable recent_buffer (observer_start recent_buffer t0)"
| step: "observer_reachable recent_buffer ob \<Longrightarrow> observer_step recent_buffer ob ob' \<Longrightarrow>
     observer_reachable recent_buffer ob'"

subsection \<open>The invariant\<close>

text \<open>
  What the snapshots must show: the counters and the newest messages after the first \<open>n\<close> accepted
  observations, folded in order into the start state.
\<close>

definition view_of :: "nat \<Rightarrow> timed_obs list \<Rightarrow> AppState" where
  "view_of recent_buffer es = trim_recent recent_buffer (fold_obs es (start_state recent_buffer))"

definition sound_snapshot :: "nat \<Rightarrow> timed_obs list \<Rightarrow> AppState \<Rightarrow> bool" where
  "sound_snapshot recent_buffer es s \<longleftrightarrow>
     s = default_state \<or> (\<exists>n \<le> length es. s = view_of recent_buffer (take n es))"

definition observer_inv :: "nat \<Rightarrow> observer \<Rightarrow> bool" where
  "observer_inv cap ob \<longleftrightarrow>
     trim_recent cap (owned ob) = view_of cap (folded ob) \<and>
     map fst (folded ob) @ ch_queue (chan ob) = accepted ob \<and>
     length (ch_queue (chan ob)) \<le> ch_capacity (chan ob) \<and>
     ch_capacity (chan ob) = 8192 \<and>
     (\<forall>s \<in> set (snapshots ob). sound_snapshot cap (folded ob) s) \<and>
     snapshots ob \<noteq> [] \<and>
     (phase_of ob = Waiting \<longrightarrow> owned ob = view_of cap (folded ob) \<and>
        (folded ob \<noteq> [] \<longrightarrow> last (snapshots ob) = view_of cap (folded ob))) \<and>
     (phase_of ob \<noteq> Stopped \<longrightarrow> ch_receiver_alive (chan ob)) \<and>
     sorted (map snd (folded ob)) \<and> (\<forall>t \<in> set (map snd (folded ob)). t \<le> clock ob) \<and>
     (\<forall>now. phase_of ob = Draining now \<longrightarrow> clock ob = now)"

lemma view_of_snoc:
  assumes "trim_recent cap st = view_of cap es"
  shows "trim_recent cap (apply_obs obs now st) = view_of cap (es @ [(obs, now)])"
proof -
  have "trim_recent cap (apply_timed (obs, now) st) = trim_recent cap (apply_timed (obs, now) (view_of cap es))"
    unfolding assms [symmetric] by (rule trim_apply_trim [symmetric])
  also have "\<dots> = trim_recent cap (apply_timed (obs, now) (fold_obs es (start_state cap)))"
    unfolding view_of_def by (rule trim_apply_trim)
  finally show ?thesis by (simp add: view_of_def apply_timed_def)
qed

lemma sound_snapshot_extend: "sound_snapshot cap es s \<Longrightarrow> sound_snapshot cap (es @ [e]) s"
  unfolding sound_snapshot_def by (fastforce simp: le_Suc_eq)

lemma view_of_trimmed: "trim_recent cap (view_of cap es) = view_of cap es"
  by (simp add: view_of_def trim_recent_idem)

lemma observer_inv_start: "observer_inv cap (observer_start cap t0)"
proof -
  have "trim_recent cap (start_state cap) = start_state cap"
    by (simp add: trim_recent_def start_state_def default_state_def)
  then show ?thesis
    by (simp add: observer_inv_def observer_start_def channel_new_def view_of_def sound_snapshot_def)
qed

lemma observer_inv_produce:
  assumes "observer_inv cap ob"
  shows "observer_inv cap (produce obs ob)"
  using assms by (auto simp: observer_inv_def produce_def try_send_def Let_def)

lemma observer_inv_fold_one:
  assumes "observer_inv cap ob" and "try_recv (chan ob) = Some (obs, ch)"
    and "phase_of ob \<noteq> Stopped" and "clock ob \<le> now"
  shows "observer_inv cap (fold_one obs now ch ob)"
proof -
  from assms(2) have q: "ch_queue (chan ob) = obs # ch_queue ch" "ch_capacity ch = ch_capacity (chan ob)"
    "ch_receiver_alive ch = ch_receiver_alive (chan ob)"
    by (auto dest!: sink.recv_Some)
  with assms(1,3,4) show ?thesis
    by (auto simp: observer_inv_def fold_one_def view_of_snoc sorted_append intro: sound_snapshot_extend)
qed

lemma observer_inv_stop: "observer_inv cap ob \<Longrightarrow> observer_inv cap (stop ob)"
  by (simp add: observer_inv_def stop_def)

lemma observer_inv_end_burst:
  assumes "observer_inv cap ob" and "phase_of ob = Draining now"
  shows "observer_inv cap (end_burst cap ob)"
proof -
  have trimmed: "observer_inv cap (ob\<lparr>owned := trim_recent cap (owned ob)\<rparr>)"
    using assms by (auto simp: observer_inv_def trim_recent_idem view_of_trimmed)
  have "sound_snapshot cap (folded ob) (view_of cap (folded ob))"
    by (auto simp: sound_snapshot_def)
  then have "observer_inv cap (ob\<lparr>owned := trim_recent cap (owned ob),
      snapshots := snapshots ob @ [trim_recent cap (owned ob)], phase_of := Waiting\<rparr>)"
    using assms by (auto simp: observer_inv_def trim_recent_idem view_of_trimmed)
  with trimmed show ?thesis
    by (simp add: end_burst_def Let_def observer_inv_stop)
qed

lemma observer_step_inv: "observer_step cap ob ob' \<Longrightarrow> observer_inv cap ob \<Longrightarrow> observer_inv cap ob'"
proof (induction rule: observer_step.induct)
  case (emit ob obs)
  then show ?case by (simp add: observer_inv_produce)
next
  case (receive ob obs ch now)
  then show ?case by (simp add: observer_inv_fold_one)
next
  case (drain ob now obs ch)
  then have "clock ob \<le> now" by (simp add: observer_inv_def)
  with drain show ?case by (simp add: observer_inv_fold_one)
next
  case (snapshot ob now)
  then show ?case by (simp add: observer_inv_end_burst)
next
  case (senders_gone ob)
  then show ?case by (simp add: observer_inv_stop)
qed (simp_all add: observer_inv_def)

lemma observer_reachable_inv: "observer_reachable cap ob \<Longrightarrow> observer_inv cap ob"
  by (induction rule: observer_reachable.induct) (auto intro: observer_inv_start observer_step_inv)

subsection \<open>What readers see\<close>

lemma snapshot_is_view:
  assumes "observer_reachable cap ob" and "s \<in> set (snapshots ob)"
  shows "s = default_state \<or>
    (\<exists>es. prefix (map fst es) (accepted ob) \<and> sorted (map snd es) \<and> s = view_of cap es)"
proof -
  have inv: "observer_inv cap ob" using assms(1) by (rule observer_reachable_inv)
  with assms(2) consider "s = default_state" | n where "s = view_of cap (take n (folded ob))"
    by (auto simp: observer_inv_def sound_snapshot_def)
  then show ?thesis
  proof cases
    case (2 n)
    have "accepted ob = map fst (take n (folded ob)) @ map fst (drop n (folded ob)) @ ch_queue (chan ob)"
      using inv by (simp add: observer_inv_def flip: append_assoc map_append)
    then have "prefix (map fst (take n (folded ob))) (accepted ob)" by (metis prefixI)
    moreover have "sorted (map snd (take n (folded ob)))"
      using inv by (simp add: observer_inv_def take_map [symmetric] sorted_wrt_take)
    ultimately show ?thesis using 2 by blast
  qed simp
qed

lemma snapshot_ok:
  assumes "observer_reachable cap ob" and "s \<in> set (snapshots ob)"
  shows "length (recent_messages s) \<le> cap \<and> state_ok s \<and>
    bt_sum publish_count (topics s) = next_seq s"
proof -
  have "s = default_state \<or> (\<exists>n. s = view_of cap (take n (folded ob)))"
    using observer_reachable_inv [OF assms(1)] assms(2)
    by (auto simp: observer_inv_def sound_snapshot_def)
  moreover have "state_ok default_state" using default_state_ok [of "recent_buffer_capacity default_state"] by simp
  ultimately have "length (recent_messages s) \<le> cap \<and> state_ok s"
    by (auto simp: view_of_def default_state_def trim_recent_ok fold_obs_ok)
  then show ?thesis by (simp add: state_ok_def)
qed

text \<open>
  Snapshots are never torn: whatever the producers, the drain loop and the readers do,
  every value published is the initial empty state or the fold, in order and at nondecreasing
  times, of a prefix of the accepted observations, trimmed to the newest \<open>cap\<close> messages.
\<close>

theorem snapshots_sound:
  assumes "observer_reachable cap ob" and "s \<in> set (snapshots ob)"
  shows "s = default_state \<or>
    (\<exists>es. prefix (map fst es) (accepted ob) \<and> sorted (map snd es) \<and> s = view_of cap es)"
  by (rule snapshot_is_view [OF assms])

text \<open>
  Every snapshot a reader can see is bounded and consistent: at most the configured number
  of messages, and books that balance.
\<close>

theorem snapshots_bounded:
  assumes "observer_reachable cap ob" and "s \<in> set (snapshots ob)"
  shows "length (recent_messages s) \<le> cap \<and> state_ok s \<and>
    bt_sum publish_count (topics s) = next_seq s"
  by (rule snapshot_ok [OF assms])

lemma drain_completes:
  assumes "observer_inv cap ob" and "phase_of ob = Draining now" and "readers ob > 0"
  shows "\<exists>ob'. (observer_step cap)\<^sup>*\<^sup>* ob ob' \<and> phase_of ob' = Waiting \<and> ch_queue (chan ob') = [] \<and>
    accepted ob' = accepted ob"
  using assms
proof (induction "length (ch_queue (chan ob))" arbitrary: ob)
  case 0
  then have "observer_step cap ob (end_burst cap ob)"
    by (intro observer_step.snapshot) (simp_all add: try_recv_def)
  with 0 show ?case
    by (intro exI [of _ "end_burst cap ob"]) (simp add: end_burst_def Let_def r_into_rtranclp)
next
  case (Suc n)
  then obtain obs rest where q: "ch_queue (chan ob) = obs # rest"
    by (metis length_Suc_conv)
  define ob1 where "ob1 = fold_one obs now ((chan ob)\<lparr>ch_queue := rest\<rparr>) ob"
  from q Suc.prems have step: "observer_step cap ob ob1"
    unfolding ob1_def by (intro observer_step.drain) (simp_all add: try_recv_def)
  with Suc.prems have "observer_inv cap ob1" by (simp add: observer_step_inv)
  with Suc q obtain ob' where "(observer_step cap)\<^sup>*\<^sup>* ob1 ob'" "phase_of ob' = Waiting"
    "ch_queue (chan ob') = []" "accepted ob' = accepted ob1"
    using Suc.hyps(1) [of ob1] by (auto simp: ob1_def fold_one_def)
  with step show ?case
    by (intro exI [of _ ob']) (auto simp: ob1_def fold_one_def intro: converse_rtranclp_into_rtranclp)
qed

lemma observer_run_inv: "(observer_step cap)\<^sup>*\<^sup>* ob ob' \<Longrightarrow> observer_inv cap ob \<Longrightarrow> observer_inv cap ob'"
  by (induction rule: rtranclp_induct) (auto intro: observer_step_inv)

lemma quiescent_view:
  assumes "observer_inv cap ob" and "phase_of ob = Waiting" and "ch_queue (chan ob) = []"
    and "accepted ob \<noteq> []"
  shows "\<exists>es. map fst es = accepted ob \<and> last (snapshots ob) = view_of cap es"
proof -
  from assms have "map fst (folded ob) = accepted ob" by (simp add: observer_inv_def)
  moreover from this assms have "folded ob \<noteq> []" by auto
  ultimately show ?thesis using assms by (auto simp: observer_inv_def)
qed

lemma catches_up:
  assumes "observer_reachable cap ob" and "phase_of ob \<noteq> Stopped" and "readers ob > 0"
    and "accepted ob \<noteq> []"
  shows "\<exists>ob' es. (observer_step cap)\<^sup>*\<^sup>* ob ob' \<and> phase_of ob' = Waiting \<and> ch_queue (chan ob') = [] \<and>
    accepted ob' = accepted ob \<and> map fst es = accepted ob \<and> last (snapshots ob') = view_of cap es"
proof -
  have inv: "observer_inv cap ob" using assms(1) by (rule observer_reachable_inv)
  have "\<exists>ob'. (observer_step cap)\<^sup>*\<^sup>* ob ob' \<and> phase_of ob' = Waiting \<and> ch_queue (chan ob') = [] \<and>
      accepted ob' = accepted ob"
  proof (cases "phase_of ob")
    case Waiting
    show ?thesis
    proof (cases "ch_queue (chan ob)")
      case Nil
      with Waiting show ?thesis by blast
    next
      case (Cons obs rest)
      define ob1 where "ob1 = fold_one obs (clock ob) ((chan ob)\<lparr>ch_queue := rest\<rparr>) ob"
      from Cons Waiting have step: "observer_step cap ob ob1"
        unfolding ob1_def by (intro observer_step.receive) (simp_all add: try_recv_def)
      then have "observer_inv cap ob1" using inv by (rule observer_step_inv)
      with assms(3) obtain ob' where "(observer_step cap)\<^sup>*\<^sup>* ob1 ob'" "phase_of ob' = Waiting"
        "ch_queue (chan ob') = []" "accepted ob' = accepted ob1"
        using drain_completes [of cap ob1 "clock ob"] by (auto simp: ob1_def fold_one_def)
      with step show ?thesis
        by (intro exI [of _ ob']) (auto simp: ob1_def fold_one_def intro: converse_rtranclp_into_rtranclp)
    qed
  qed (use drain_completes [OF inv] assms in auto)
  then obtain ob' where ob': "(observer_step cap)\<^sup>*\<^sup>* ob ob'" "phase_of ob' = Waiting"
    "ch_queue (chan ob') = []" "accepted ob' = accepted ob" by blast
  then have "observer_inv cap ob'" using inv by (blast intro: observer_run_inv)
  with ob' assms(4) show ?thesis using quiescent_view [of cap ob'] by auto
qed

text \<open>
  The view catches up: from any reachable state in which the task still runs and has a
  reader, the task can finish on its own, without another observation, in a state where it waits on
  an empty channel and the latest snapshot shows every observation ever accepted.
\<close>

theorem view_catches_up:
  assumes "observer_reachable cap ob" and "phase_of ob \<noteq> Stopped" and "readers ob > 0"
    and "accepted ob \<noteq> []"
  shows "\<exists>ob' es. (observer_step cap)\<^sup>*\<^sup>* ob ob' \<and> phase_of ob' = Waiting \<and> ch_queue (chan ob') = [] \<and>
    accepted ob' = accepted ob \<and> map fst es = accepted ob \<and> last (snapshots ob') = view_of cap es"
  by (rule catches_up [OF assms])

subsection \<open>The order of the snapshots\<close>

text \<open>A task that has stopped never runs again and publishes nothing more.\<close>

lemma stopped_is_final:
  "observer_step cap ob ob' \<Longrightarrow> phase_of ob = Stopped \<Longrightarrow>
     phase_of ob' = Stopped \<and> snapshots ob' = snapshots ob \<and> folded ob' = folded ob"
  by (erule observer_stepE) (auto simp: produce_def try_send_def Let_def)

text \<open>The snapshots show ever longer prefixes of what was folded, starting with the empty state.\<close>

definition in_order :: "nat \<Rightarrow> observer \<Rightarrow> bool" where
  "in_order cap ob \<longleftrightarrow> (\<exists>ns. sorted ns \<and> (\<forall>n \<in> set ns. n \<le> length (folded ob)) \<and>
     snapshots ob = default_state # map (\<lambda>n. view_of cap (take n (folded ob))) ns)"

lemma in_order_extend:
  assumes "in_order cap ob" and "folded ob' = folded ob @ es" and "snapshots ob' = snapshots ob"
  shows "in_order cap ob'"
proof -
  obtain ns where ns: "sorted ns" "\<forall>n \<in> set ns. n \<le> length (folded ob)"
    "snapshots ob = default_state # map (\<lambda>n. view_of cap (take n (folded ob))) ns"
    using assms(1) by (auto simp: in_order_def)
  with assms(2,3) show ?thesis unfolding in_order_def by (intro exI [of _ ns]) auto
qed

lemma in_order_publish:
  assumes "in_order cap ob" and "folded ob' = folded ob" and "snapshots ob' = snapshots ob @ [view_of cap (folded ob)]"
  shows "in_order cap ob'"
proof -
  obtain ns where ns: "sorted ns" "\<forall>n \<in> set ns. n \<le> length (folded ob)"
    "snapshots ob = default_state # map (\<lambda>n. view_of cap (take n (folded ob))) ns"
    using assms(1) by (auto simp: in_order_def)
  with assms(2,3) show ?thesis
    unfolding in_order_def by (intro exI [of _ "ns @ [length (folded ob)]"]) (auto simp: sorted_append)
qed

lemma reachable_in_order: "observer_reachable cap ob \<Longrightarrow> in_order cap ob"
proof (induction rule: observer_reachable.induct)
  case (start t0)
  show ?case by (simp add: in_order_def observer_start_def)
next
  case (step ob ob')
  have "observer_inv cap ob" using step.hyps(1) by (rule observer_reachable_inv)
  then have owned: "trim_recent cap (owned ob) = view_of cap (folded ob)" by (simp add: observer_inv_def)
  note IH = step.IH
  from step.hyps(2) show ?case
  proof cases
    case (emit obs)
    then show ?thesis by (intro in_order_extend [OF IH, of _ "[]"]) (simp_all add: produce_def try_send_def)
  next
    case (receive obs ch now)
    then show ?thesis by (intro in_order_extend [OF IH, of _ "[(obs, now)]"]) (simp_all add: fold_one_def)
  next
    case (drain now obs ch)
    then show ?thesis by (intro in_order_extend [OF IH, of _ "[(obs, now)]"]) (simp_all add: fold_one_def)
  next
    case (snapshot now)
    show ?thesis
    proof (cases "readers ob = 0")
      case True
      with snapshot show ?thesis by (intro in_order_extend [OF IH, of _ "[]"]) (simp_all add: end_burst_def stop_def)
    next
      case False
      with snapshot show ?thesis by (intro in_order_publish [OF IH]) (simp_all add: end_burst_def owned)
    qed
  next
    case senders_gone
    then show ?thesis by (intro in_order_extend [OF IH, of _ "[]"]) (simp_all add: stop_def)
  qed (auto intro!: in_order_extend [OF IH, of _ "[]"])
qed

text \<open>
  Claim C9. Readers never see time run backwards nor a torn state: whatever the producers, the drain loop and the
  readers do, the values published on the channel are the initial empty state followed by the folds of
  ever longer prefixes of the accepted observations, in order and at nondecreasing times, each trimmed
  to the newest \<open>cap\<close> messages.
\<close>

theorem snapshots_in_order:
  assumes "observer_reachable cap ob"
  shows "\<exists>es ns. prefix (map fst es) (accepted ob) \<and> sorted (map snd es) \<and> sorted ns \<and>
    snapshots ob = default_state # map (\<lambda>n. view_of cap (take n es)) ns"
proof -
  have inv: "observer_inv cap ob" using assms by (rule observer_reachable_inv)
  then have "prefix (map fst (folded ob)) (accepted ob)"
    by (auto simp: observer_inv_def intro: prefixI [OF sym])
  moreover have "sorted (map snd (folded ob))" using inv by (simp add: observer_inv_def)
  ultimately show ?thesis using reachable_in_order [OF assms] unfolding in_order_def by blast
qed

text \<open>A run to apply these to: one observation is emitted and not yet received.\<close>

definition one_emitted :: observer where
  "one_emitted = produce (ConsumerOpen ''s'' None) (observer_start 2 0)"

lemma one_emitted_reachable: "observer_reachable 2 one_emitted"
  unfolding one_emitted_def
  by (rule observer_reachable.step [OF observer_reachable.start observer_step.emit])

lemma one_emitted_simps:
  "phase_of one_emitted = Waiting" "readers one_emitted = 1"
  "accepted one_emitted = [ConsumerOpen ''s'' None]" "snapshots one_emitted = [default_state]"
  by (simp_all add: one_emitted_def produce_def observer_start_def channel_new_def try_send_def)

text \<open>The same run, with the observation received at time 5 and shown.\<close>

definition one_shown :: observer where
  "one_shown = end_burst 2 (fold_one (ConsumerOpen ''s'' None) 5 (channel_new 8192) one_emitted)"

lemma one_shown_reachable: "observer_reachable 2 one_shown"
proof -
  let ?mid = "fold_one (ConsumerOpen ''s'' None) 5 (channel_new 8192) one_emitted"
  have "observer_step 2 one_emitted ?mid"
    by (rule observer_step.receive)
      (simp_all add: one_emitted_def produce_def observer_start_def channel_new_def try_send_def try_recv_def)
  with one_emitted_reachable have "observer_reachable 2 ?mid" by (rule observer_reachable.step)
  moreover have "observer_step 2 ?mid one_shown"
    unfolding one_shown_def
    by (rule observer_step.snapshot) (simp_all add: fold_one_def channel_new_def try_recv_def)
  ultimately show ?thesis by (rule observer_reachable.step)
qed

definition shown_view :: AppState where
  "shown_view = trim_recent 2 (apply_obs (ConsumerOpen ''s'' None) 5 (start_state 2))"

lemma one_shown_simps:
  "snapshots one_shown = [default_state, shown_view]" "accepted one_shown = [ConsumerOpen ''s'' None]"
  by (simp_all add: one_shown_def shown_view_def end_burst_def fold_one_def one_emitted_def produce_def
      observer_start_def channel_new_def try_send_def Let_def)

lemma shown_view_new: "shown_view \<noteq> default_state"
proof -
  have "connected_consumers shown_view = 1" "connected_consumers default_state = 0"
    by (simp_all add: shown_view_def connected_consumers_def start_state_def state_defs bt_upsert_def)
  then show ?thesis by auto
qed

theorem snapshots_sound_witness:
  "\<exists>es. prefix (map fst es) [ConsumerOpen ''s'' None] \<and> sorted (map snd es) \<and> shown_view = view_of 2 es"
  using snapshots_sound [OF one_shown_reachable, of shown_view] shown_view_new
  by (simp add: one_shown_simps)

theorem snapshots_in_order_witness:
  "\<exists>es ns. prefix (map fst es) [ConsumerOpen ''s'' None] \<and> sorted (map snd es) \<and> sorted ns \<and>
     [default_state, shown_view] = default_state # map (\<lambda>n. view_of 2 (take n es)) ns"
  using snapshots_in_order [OF one_shown_reachable] by (simp only: one_shown_simps)

theorem snapshots_bounded_witness:
  "length (recent_messages shown_view) \<le> 2 \<and> state_ok shown_view \<and>
     bt_sum publish_count (topics shown_view) = next_seq shown_view"
  by (rule snapshots_bounded [OF one_shown_reachable]) (simp add: one_shown_simps)

theorem view_catches_up_witness:
  "\<exists>ob' es. (observer_step 2)\<^sup>*\<^sup>* one_emitted ob' \<and> phase_of ob' = Waiting \<and> ch_queue (chan ob') = [] \<and>
    accepted ob' = accepted one_emitted \<and> map fst es = accepted one_emitted \<and>
    last (snapshots ob') = view_of 2 es"
  by (rule view_catches_up [OF one_emitted_reachable]) (simp_all add: one_emitted_simps)

end
