(* ===== verification/Publisher.thy ===== *)
theory Publisher
  imports Rpc
begin

text \<open>
  \<^verbatim>\<open>src/proxy/publisher.rs\<close>: the proxied \<open>Publisher\<close> service. \<open>Publish\<close> is tapped, everything else is
  forwarded.
\<close>

record PubsubMessage =
  msg_data :: bytes
  msg_attributes :: "(string, string) mapping"
  msg_ordering_key :: string

record PublishRequest =
  pub_topic :: string
  pub_messages :: "PubsubMessage list"

record ProxyPublisher =
  payload_cap :: nat

text \<open>\<open>iter\<close> is the iteration order of the attributes' hash map.\<close>

definition capture ::
  "ProxyPublisher \<Rightarrow> ((string, string) mapping \<Rightarrow> (string \<times> string) list) \<Rightarrow> PubsubMessage \<Rightarrow> PublishedMessage" where
  "capture self iter message =
     (let original_len = length (msg_data message);
          truncated = (original_len > payload_cap self);
          data = take (min original_len (payload_cap self)) (msg_data message);
          attributes = map (\<lambda>(k, v). (k, v)) (iter (msg_attributes message))
      in \<lparr>pm_data = data, pm_attributes = attributes, pm_original_len = original_len,
          pm_truncated = truncated\<rparr>)"

definition publish ::
  "ProxyPublisher \<Rightarrow> ((string, string) mapping \<Rightarrow> (string \<times> string) list) \<Rightarrow>
   (PublishRequest, 'e, 'r) upstream \<Rightarrow> PublishRequest grpc_request \<Rightarrow> ('e, 'r) outcome" where
  "publish self iter up request =
     (let peer = rq_remote_addr request;
          topic = pub_topic (rq_message request);
          messages = map (capture self iter) (pub_messages (rq_message request))
      in case up request of
           Inr response \<Rightarrow> (Inr response, [Publish topic peer messages])
         | Inl status \<Rightarrow> (Inl status, []))"

text \<open>
  The whole service: the eight forwarded methods the macro is given and the tapped one.
\<close>

datatype publisher_method =
  CreateTopic | UpdateTopic | GetTopic | ListTopics | ListTopicSubscriptions | ListTopicSnapshots
  | DeleteTopic | DetachSubscription

datatype 'm publisher_call =
    Forwarded publisher_method "'m grpc_request"
  | Published "PublishRequest grpc_request"

fun publisher_service ::
  "ProxyPublisher \<Rightarrow> ((string, string) mapping \<Rightarrow> (string \<times> string) list) \<Rightarrow>
   (publisher_method \<Rightarrow> ('m, 'e, 'r) upstream) \<Rightarrow> (PublishRequest, 'e, 'r) upstream \<Rightarrow>
   'm publisher_call \<Rightarrow> ('e, 'r) outcome" where
  "publisher_service self iter up_other up_publish (Forwarded rpc request) = forward_rpc (up_other rpc) request"
| "publisher_service self iter up_other up_publish (Published request) = publish self iter up_publish request"

interpretation publishing: transparent_rpc "publish self iter"
  by unfold_locales (simp_all add: publish_def Let_def split: sum.split)

subsection \<open>Properties\<close>

text \<open>
  Capturing a message keeps at most the payload cap and says so truthfully: the captured
  bytes are the first \<open>cap\<close> bytes of the payload, the true length is recorded, the truncation flag
  is set exactly when bytes are missing, and the attributes are those of the message.
\<close>

theorem capture_exact:
  assumes "map_iteration iter" and "finite (Mapping.keys (msg_attributes message))"
  shows "let pm = capture self iter message in
     pm_data pm = take (payload_cap self) (msg_data message) \<and>
     length (pm_data pm) \<le> payload_cap self \<and>
     pm_original_len pm = length (msg_data message) \<and>
     (pm_truncated pm \<longleftrightarrow> pm_data pm \<noteq> msg_data message) \<and>
     map_of (pm_attributes pm) = Mapping.lookup (msg_attributes message)"
proof -
  have "map_of (iter (msg_attributes message)) k = Mapping.lookup (msg_attributes message) k" for k
    by (rule map_iteration.iter_map_of [OF assms])
  moreover have "take (payload_cap self) (msg_data message) \<noteq> msg_data message \<longleftrightarrow>
      length (msg_data message) > payload_cap self"
    by (metis length_take linorder_not_less min.absorb_iff2 min.commute nat_less_le take_all)
  moreover have "take (min (length (msg_data message)) (payload_cap self)) (msg_data message) =
      take (payload_cap self) (msg_data message)"
    by (simp add: min_def)
  ultimately show ?thesis
    by (auto simp: capture_def Let_def fun_eq_iff)
qed

theorem capture_exact_witness:
  "pm_data (capture \<lparr>payload_cap = 2\<rparr> hash_entries
     \<lparr>msg_data = [1, 2, 3], msg_attributes = Mapping.empty, msg_ordering_key = ''''\<rparr>) = [1, 2] \<and>
   pm_truncated (capture \<lparr>payload_cap = 2\<rparr> hash_entries
     \<lparr>msg_data = [1, 2, 3], msg_attributes = Mapping.empty, msg_ordering_key = ''''\<rparr>)"
  using capture_exact [OF key_order.map_iteration_axioms,
      of "\<lparr>msg_data = [1, 2, 3], msg_attributes = Mapping.empty, msg_ordering_key = ''''\<rparr>" "\<lparr>payload_cap = 2\<rparr>"]
  by (simp add: Let_def)


end
