(* ===== verification/Rest.thy ===== *)
theory Rest
  imports Publisher
begin

text \<open>
  \<^verbatim>\<open>src/proxy/rest.rs\<close>: the relay for Pub/Sub's REST/JSON protocol, and what it observes of the calls it
  relays. The HTTP client, the JSON parser, the gzip and base64 decoders and the URI parser are
  libraries: they are functions of an environment, of which nothing is assumed here.
\<close>

subsection \<open>HTTP\<close>

text \<open>
  A \<open>HeaderMap\<close> as the list of its headers; names are lower case, a name may occur several times.
\<close>

type_synonym header_map = "(string \<times> string) list"

definition header_get :: "header_map \<Rightarrow> string \<Rightarrow> string option" where
  "header_get headers name = map_of headers name"

definition header_values :: "header_map \<Rightarrow> string \<Rightarrow> string list" where
  "header_values headers name = map snd (filter (\<lambda>h. fst h = name) headers)"

definition header_remove :: "string \<Rightarrow> header_map \<Rightarrow> header_map" where
  "header_remove name headers = filter (\<lambda>h. fst h \<noteq> name) headers"

definition header_insert :: "string \<Rightarrow> string \<Rightarrow> header_map \<Rightarrow> header_map" where
  "header_insert name val headers = header_remove name headers @ [(name, val)]"

datatype http_version = HTTP_10 | HTTP_11 | HTTP_2

record uri =
  uri_path :: string
  uri_path_and_query :: "string option"

record 'b http_request =
  hr_method :: string
  hr_uri :: uri
  hr_version :: http_version
  hr_headers :: header_map
  hr_remote_addr :: "socket_addr option"
  hr_body :: 'b

record 'b http_response =
  hs_status :: nat
  hs_version :: http_version
  hs_headers :: header_map
  hs_body :: 'b

text \<open>A request to the upstream; \<open>'u\<close> is the parsed URI.\<close>

record 'u upstream_request =
  ur_method :: string
  ur_uri :: 'u
  ur_headers :: header_map
  ur_body :: bytes

definition is_success :: "nat \<Rightarrow> bool" where
  "is_success status \<longleftrightarrow> 200 \<le> status \<and> status < 300"

subsection \<open>JSON\<close>

text \<open>\<open>serde_json::Value\<close>; an object is ordered by key, a number is its text.\<close>

datatype json =
    JNull | JBool bool | JNumber string | JString string | JArray "json list"
  | JObject "(string \<times> json) list"

fun json_get :: "string \<Rightarrow> json \<Rightarrow> json option" where
  "json_get field (JObject members) = map_of members field"
| "json_get field _ = None"

fun as_array :: "json \<Rightarrow> json list option" where
  "as_array (JArray values) = Some values"
| "as_array _ = None"

fun as_str :: "json \<Rightarrow> string option" where
  "as_str (JString s) = Some s"
| "as_str _ = None"

fun as_object :: "json \<Rightarrow> (string \<times> json) list option" where
  "as_object (JObject members) = Some members"
| "as_object _ = None"

subsection \<open>The environment\<close>

text \<open>
  \<open>collect_limited limit body\<close> buffers a body, failing when it is longer than the limit or breaks off;
  \<open>send_upstream\<close> is the HTTP client, failing when the upstream cannot be reached.
\<close>

record ('b, 'u) rest_env =
  collect_limited :: "nat \<Rightarrow> 'b \<Rightarrow> bytes option"
  parse_uri :: "string \<Rightarrow> 'u option"
  send_upstream :: "'u upstream_request \<Rightarrow> 'b http_response option"
  parse_json :: "bytes \<Rightarrow> json option"
  json_text :: "json \<Rightarrow> bytes"
  gunzip :: "bytes \<Rightarrow> bytes option"
  base64_standard :: "string \<Rightarrow> bytes option"
  base64_url_safe :: "string \<Rightarrow> bytes option"
  canonical_reason :: "nat \<Rightarrow> string option"

definition MAX_MESSAGE_SIZE :: nat where
  "MAX_MESSAGE_SIZE = 64 * 1024 * 1024"

definition HOP_BY_HOP :: "string list" where
  "HOP_BY_HOP = [''connection'', ''proxy-authenticate'', ''proxy-authorization'', ''te'', ''trailer'',
     ''transfer-encoding'', ''upgrade'', ''keep-alive'']"

record RestProxy =
  rp_upstream :: string
  rp_payload_cap :: nat

subsection \<open>Helpers\<close>

definition strip_prefix :: "string \<Rightarrow> string \<Rightarrow> string option" where
  "strip_prefix pre s = (if take (length pre) s = pre then Some (drop (length pre) s) else None)"

definition rsplit_once :: "char \<Rightarrow> string \<Rightarrow> (string \<times> string) option" where
  "rsplit_once c s =
     (case dropWhile (\<lambda>x. x \<noteq> c) (rev s) of [] \<Rightarrow> None
      | _ # before \<Rightarrow> Some (rev before, rev (takeWhile (\<lambda>x. x \<noteq> c) (rev s))))"

fun contains_str :: "string \<Rightarrow> string \<Rightarrow> bool" where
  "contains_str [] pat = (pat = [])"
| "contains_str (c # cs) pat = (take (length pat) (c # cs) = pat \<or> contains_str cs pat)"

definition resource_and_verb :: "string \<Rightarrow> (string \<times> string) option" where
  "resource_and_verb path =
     (case strip_prefix ''/v1/'' path of None \<Rightarrow> None
      | Some rest \<Rightarrow>
          (case rsplit_once (CHR '':'') rest of None \<Rightarrow> None
           | Some (resource, verb) \<Rightarrow>
               if resource \<noteq> '''' \<and> verb \<noteq> '''' then Some (resource, verb) else None))"

definition relayed_headers :: "header_map \<Rightarrow> bool \<Rightarrow> header_map" where
  "relayed_headers headers drop_host =
     (let relayed = fold header_remove HOP_BY_HOP headers
      in if drop_host then header_remove ''host'' relayed else relayed)"

definition decoded :: "('b, 'u) rest_env \<Rightarrow> header_map \<Rightarrow> bytes \<Rightarrow> bytes option" where
  "decoded env headers body =
     (case header_get headers ''content-encoding'' of
        None \<Rightarrow> Some body
      | Some encoding \<Rightarrow>
          if encoding = ''identity'' then Some body
          else if encoding = ''gzip'' \<or> encoding = ''x-gzip'' then gunzip env body
          else None)"

definition json_array_len :: "('b, 'u) rest_env \<Rightarrow> bytes \<Rightarrow> string \<Rightarrow> u64" where
  "json_array_len env body field =
     (case Option.bind (Option.bind (parse_json env body) (json_get field)) as_array of
        None \<Rightarrow> 0 | Some values \<Rightarrow> of_nat (length values))"

definition decode_base64 :: "('b, 'u) rest_env \<Rightarrow> string \<Rightarrow> bytes" where
  "decode_base64 env val =
     (case base64_standard env val of Some data \<Rightarrow> data
      | None \<Rightarrow> (case base64_url_safe env val of Some data \<Rightarrow> data | None \<Rightarrow> []))"

definition error_response :: "('b, 'u) rest_env \<Rightarrow> nat \<Rightarrow> string \<Rightarrow> bytes http_response" where
  "error_response env status message =
     \<lparr>hs_status = status, hs_version = HTTP_11, hs_headers = [(''content-type'', ''application/json'')],
      hs_body = json_text env (JObject [(''error'', JObject
        [(''code'', JNumber (show_nat status)), (''message'', JString message),
         (''status'', (case canonical_reason env status of None \<Rightarrow> JNull | Some reason \<Rightarrow> JString reason))])])\<rparr>"

subsection \<open>Capturing\<close>

definition rest_capture :: "('b, 'u) rest_env \<Rightarrow> RestProxy \<Rightarrow> json \<Rightarrow> PublishedMessage" where
  "rest_capture env self message =
     (let data = (case Option.bind (json_get ''data'' message) as_str of
                    None \<Rightarrow> [] | Some val \<Rightarrow> decode_base64 env val);
          attributes = (case Option.bind (json_get ''attributes'' message) as_object of
                    None \<Rightarrow> []
                  | Some attributes \<Rightarrow>
                      List.map_filter (\<lambda>(key, val). map_option (\<lambda>val. (key, val)) (as_str val)) attributes);
          original_len = length data;
          truncated = (original_len > rp_payload_cap self);
          data = take (rp_payload_cap self) data
      in \<lparr>pm_data = data, pm_attributes = attributes, pm_original_len = original_len,
          pm_truncated = truncated\<rparr>)"

definition captured_messages :: "('b, 'u) rest_env \<Rightarrow> RestProxy \<Rightarrow> bytes \<Rightarrow> PublishedMessage list" where
  "captured_messages env self body =
     (case parse_json env body of
        None \<Rightarrow> []
      | Some json \<Rightarrow>
          (case Option.bind (json_get ''messages'' json) as_array of
             None \<Rightarrow> [] | Some messages \<Rightarrow> map (rest_capture env self) messages))"

subsection \<open>Observing one completed call\<close>

definition rest_observe ::
  "('b, 'u) rest_env \<Rightarrow> RestProxy \<Rightarrow> string \<Rightarrow> string \<Rightarrow> header_map \<Rightarrow> bytes \<Rightarrow> nat \<Rightarrow> header_map \<Rightarrow> bytes \<Rightarrow>
   socket_addr option \<Rightarrow> observation list" where
  "rest_observe env self method path request_headers request_body status response_headers response_body peer =
     (if method \<noteq> ''POST'' \<or> \<not> is_success status then []
      else case resource_and_verb path of
        None \<Rightarrow> []
      | Some (resource, verb) \<Rightarrow>
          if verb = ''publish'' \<and> contains_str resource ''/topics/'' then
            (case decoded env request_headers request_body of
               None \<Rightarrow> []
             | Some body \<Rightarrow>
                 (let messages = captured_messages env self body
                  in if messages = [] then [] else [Publish resource peer messages]))
          else if verb = ''pull'' \<and> contains_str resource ''/subscriptions/'' then
            (case decoded env response_headers response_body of
               None \<Rightarrow> []
             | Some body \<Rightarrow>
                 (let messages = json_array_len env body ''receivedMessages''
                  in if messages > 0 then [Deliver resource peer messages] else []))
          else if verb = ''acknowledge'' \<and> contains_str resource ''/subscriptions/'' then
            (case decoded env request_headers request_body of
               None \<Rightarrow> []
             | Some body \<Rightarrow>
                 (let messages = json_array_len env body ''ackIds''
                  in if messages > 0 then [Ack resource peer messages] else []))
          else [])"

subsection \<open>Relaying\<close>

definition path_and_query_of :: "uri \<Rightarrow> string" where
  "path_and_query_of u = (case uri_path_and_query u of None \<Rightarrow> uri_path u | Some pq \<Rightarrow> pq)"

definition build_upstream :: "RestProxy \<Rightarrow> 'b http_request \<Rightarrow> 'u \<Rightarrow> bytes \<Rightarrow> 'u upstream_request" where
  "build_upstream self request u body =
     \<lparr>ur_method = hr_method request, ur_uri = u, ur_headers = relayed_headers (hr_headers request) True,
      ur_body = body\<rparr>"

definition rebuild_response ::
  "'b http_request \<Rightarrow> 'b http_response \<Rightarrow> bytes \<Rightarrow> bytes http_response" where
  "rebuild_response request response response_body =
     \<lparr>hs_status = hs_status response, hs_version = hr_version request,
      hs_headers = header_insert ''content-length'' (show_nat (length response_body))
        (header_remove ''content-length'' (relayed_headers (hs_headers response) False)),
      hs_body = response_body\<rparr>"

definition handle ::
  "('b, 'u) rest_env \<Rightarrow> RestProxy \<Rightarrow> 'b http_request \<Rightarrow> bytes http_response \<times> observation list" where
  "handle env self request =
     (let peer = hr_remote_addr request
      in case collect_limited env MAX_MESSAGE_SIZE (hr_body request) of
        None \<Rightarrow> (error_response env 413 ''request body exceeded the proxy's size limit'', [])
      | Some body \<Rightarrow>
          (case parse_uri env (''http://'' @ rp_upstream self @ path_and_query_of (hr_uri request)) of
             None \<Rightarrow> (error_response env 502 ''malformed request URI'', [])
           | Some u \<Rightarrow>
               (case send_upstream env (build_upstream self request u body) of
                  None \<Rightarrow> (error_response env 502 ''upstream request failed'', [])
                | Some response \<Rightarrow>
                    (case collect_limited env MAX_MESSAGE_SIZE (hs_body response) of
                       None \<Rightarrow> (error_response env 502 ''upstream response failed'', [])
                     | Some response_body \<Rightarrow>
                         (rebuild_response request response response_body,
                          rest_observe env self (hr_method request) (uri_path (hr_uri request))
                            (hr_headers request) body (hs_status response) (hs_headers response)
                            response_body peer)))))"

subsection \<open>Facts\<close>

lemma rsplit_once_Some:
  "rsplit_once c s = Some (a, b) \<longleftrightarrow> s = a @ c # b \<and> c \<notin> set b"
proof
  assume "rsplit_once c s = Some (a, b)"
  then obtain x before where d: "dropWhile (\<lambda>x. x \<noteq> c) (rev s) = x # before"
    and ab: "a = rev before" "b = rev (takeWhile (\<lambda>x. x \<noteq> c) (rev s))"
    by (auto simp: rsplit_once_def split: list.splits)
  have "x = c" using hd_dropWhile [of "\<lambda>x. x \<noteq> c" "rev s"] d by simp
  moreover have "rev s = takeWhile (\<lambda>x. x \<noteq> c) (rev s) @ x # before"
    using takeWhile_dropWhile_id [of "\<lambda>x. x \<noteq> c" "rev s"] d by simp
  ultimately have "s = a @ c # b" unfolding ab
    by (metis append.assoc append_Cons append_Nil rev.simps(2) rev_append rev_rev_ident)
  moreover have "c \<notin> set b" unfolding ab by (auto dest: set_takeWhileD)
  ultimately show "s = a @ c # b \<and> c \<notin> set b" by simp
next
  assume s: "s = a @ c # b \<and> c \<notin> set b"
  then have "takeWhile (\<lambda>x. x \<noteq> c) (rev b @ c # rev a) = rev b"
    "dropWhile (\<lambda>x. x \<noteq> c) (rev b @ c # rev a) = c # rev a"
    by (auto simp: takeWhile_append dropWhile_append)
  with s show "rsplit_once c s = Some (a, b)" by (simp add: rsplit_once_def)
qed

lemma strip_prefix_Some: "strip_prefix pre s = Some r \<longleftrightarrow> s = pre @ r"
  by (auto simp: strip_prefix_def) (metis append_take_drop_id)

lemma resource_and_verb_Some:
  "resource_and_verb path = Some (r, v) \<longleftrightarrow>
     path = ''/v1/'' @ r @ '':'' @ v \<and> r \<noteq> '''' \<and> v \<noteq> '''' \<and> CHR '':'' \<notin> set v"
proof -
  have "resource_and_verb path = Some (r, v) \<longleftrightarrow>
      (\<exists>rest. strip_prefix ''/v1/'' path = Some rest \<and> rsplit_once (CHR '':'') rest = Some (r, v)) \<and>
      r \<noteq> '''' \<and> v \<noteq> ''''"
    by (auto simp: resource_and_verb_def split: option.splits)
  then show ?thesis by (auto simp: strip_prefix_Some rsplit_once_Some)
qed

lemma contains_str_iff: "contains_str s pat \<longleftrightarrow> (\<exists>a b. s = a @ pat @ b)"
proof (induction s)
  case (Cons c cs)
  show ?case
  proof
    assume "contains_str (c # cs) pat"
    then consider "take (length pat) (c # cs) = pat" | "contains_str cs pat" by auto
    then show "\<exists>a b. c # cs = a @ pat @ b"
    proof cases
      case 1
      then have "c # cs = [] @ pat @ drop (length pat) (c # cs)"
        by (metis append_Nil append_take_drop_id)
      then show ?thesis by blast
    next
      case 2
      with Cons.IH obtain a b where "cs = a @ pat @ b" by auto
      then show ?thesis by (metis append_Cons)
    qed
  next
    assume "\<exists>a b. c # cs = a @ pat @ b"
    then obtain a b where ab: "c # cs = a @ pat @ b" by auto
    then show "contains_str (c # cs) pat"
    proof (cases a)
      case Nil
      with ab show ?thesis by (metis append_Nil append_eq_conv_conj contains_str.simps(2))
    next
      case (Cons x xs)
      with ab Cons.IH show ?thesis by auto
    qed
  qed
qed auto

lemma header_values_remove [simp]:
  "header_values (header_remove n headers) m = (if m = n then [] else header_values headers m)"
  by (auto simp: header_values_def header_remove_def intro!: arg_cong [of _ _ "map snd"] filter_cong)

lemma header_values_insert [simp]:
  "header_values (header_insert n v headers) m = (if m = n then [v] else header_values headers m)"
  by (auto simp: header_insert_def header_values_def header_remove_def intro!: arg_cong [of _ _ "map snd"] filter_cong)

lemma header_values_removes:
  "header_values (fold header_remove ns headers) m = (if m \<in> set ns then [] else header_values headers m)"
  by (induction ns arbitrary: headers) auto

lemma header_values_relayed:
  "header_values (relayed_headers headers drop_host) m =
     (if m \<in> set HOP_BY_HOP \<or> drop_host \<and> m = ''host'' then [] else header_values headers m)"
  by (simp add: relayed_headers_def header_values_removes Let_def)

subsection \<open>Properties\<close>

text \<open>
  A REST path names a resource and a verb exactly when it is \<open>/v1/\<close>, a nonempty resource, a
  colon and a nonempty verb without a colon; the split is unique, so the resource may itself contain
  colons.
\<close>

theorem resource_and_verb_exact:
  "resource_and_verb path = Some (resource, verb) \<longleftrightarrow>
     path = ''/v1/'' @ resource @ '':'' @ verb \<and> resource \<noteq> '''' \<and> verb \<noteq> '''' \<and> CHR '':'' \<notin> set verb"
  by (rule resource_and_verb_Some)

text \<open>
  Claim C13. A relayed call is verbatim: the upstream sees the client's method, body and every header
  but the hop-by-hop ones and \<open>host\<close>; the client sees the upstream's status, body and every header but
  the hop-by-hop ones, with the one \<open>content-length\<close> of the body it gets.
\<close>

theorem rest_relays_verbatim:
  assumes "collect_limited env MAX_MESSAGE_SIZE (hr_body request) = Some body"
    and "parse_uri env (''http://'' @ rp_upstream self @ path_and_query_of (hr_uri request)) = Some u"
    and "sent = build_upstream self request u body"
    and "send_upstream env sent = Some response"
    and "collect_limited env MAX_MESSAGE_SIZE (hs_body response) = Some response_body"
    and "answer = fst (handle env self request)"
  shows "ur_method sent = hr_method request \<and> ur_uri sent = u \<and> ur_body sent = body \<and>
    hs_status answer = hs_status response \<and> hs_body answer = response_body \<and>
    header_values (hs_headers answer) ''content-length'' = [show_nat (length response_body)] \<and>
    (\<forall>n. header_values (ur_headers sent) n =
       (if n \<in> set HOP_BY_HOP \<or> n = ''host'' then [] else header_values (hr_headers request) n)) \<and>
    (\<forall>n. n \<noteq> ''content-length'' \<longrightarrow> header_values (hs_headers answer) n =
       (if n \<in> set HOP_BY_HOP then [] else header_values (hs_headers response) n))"
  using assms by (simp add: handle_def build_upstream_def rebuild_response_def header_values_relayed)

text \<open>
  Observing never touches the traffic: the client's answer does not depend on what the JSON
  parser, the gzip and base64 decoders and the capture limit make of the bodies.
\<close>

theorem rest_answer_ignores_observation:
  "fst (handle (env\<lparr>parse_json := j, gunzip := g, base64_standard := b, base64_url_safe := b'\<rparr>)
          (self\<lparr>rp_payload_cap := cap\<rparr>) request) = fst (handle env self request)"
  by (simp add: handle_def error_response_def build_upstream_def Let_def split: option.split)

text \<open>The subscription or topic an observation is charged to, and its peer.\<close>

fun charged_to :: "observation \<Rightarrow> string \<times> socket_addr option" where
  "charged_to (Publish topic peer ms) = (topic, peer)"
| "charged_to (Deliver sub peer n) = (sub, peer)"
| "charged_to (Ack sub peer n) = (sub, peer)"
| "charged_to (ConsumerOpen sub peer) = (sub, peer)"
| "charged_to (ConsumerClose sub peer) = (sub, peer)"
| "charged_to (AdminSnapshot names infos) = ('''', None)"

lemma rest_observe_cases:
  assumes "obs \<in> set (rest_observe env self method path qh qb status rh rb peer)"
  shows "method = ''POST'' \<and> is_success status \<and>
    (\<exists>verb. resource_and_verb path = Some (fst (charged_to obs), verb)) \<and> snd (charged_to obs) = peer \<and>
    rest_observe env self method path qh qb status rh rb peer = [obs]"
proof -
  have post: "method = ''POST'' \<and> is_success status"
    using assms by (simp add: rest_observe_def split: if_splits)
  obtain resource verb where rv: "resource_and_verb path = Some (resource, verb)"
    using assms post by (cases "resource_and_verb path") (auto simp: rest_observe_def)
  consider (publish) "verb = ''publish'' \<and> contains_str resource ''/topics/''"
    | (pull) "\<not> (verb = ''publish'' \<and> contains_str resource ''/topics/'')"
        "verb = ''pull'' \<and> contains_str resource ''/subscriptions/''"
    | (ack) "\<not> (verb = ''publish'' \<and> contains_str resource ''/topics/'')"
        "\<not> (verb = ''pull'' \<and> contains_str resource ''/subscriptions/'')"
        "verb = ''acknowledge'' \<and> contains_str resource ''/subscriptions/''"
    | (other) "\<not> (verb = ''publish'' \<and> contains_str resource ''/topics/'')"
        "\<not> (verb = ''pull'' \<and> contains_str resource ''/subscriptions/'')"
        "\<not> (verb = ''acknowledge'' \<and> contains_str resource ''/subscriptions/'')"
    by argo
  then have "fst (charged_to obs) = resource \<and> snd (charged_to obs) = peer \<and>
      rest_observe env self method path qh qb status rh rb peer = [obs]"
  proof cases
    case publish
    with assms post rv show ?thesis
      by (cases "decoded env qh qb") (simp_all add: rest_observe_def Let_def split: if_splits)
  next
    case pull
    with assms post rv show ?thesis
      by (cases "decoded env rh rb") (simp_all add: rest_observe_def Let_def split: if_splits)
  next
    case ack
    with assms post rv show ?thesis
      by (cases "decoded env qh qb") (simp_all add: rest_observe_def Let_def split: if_splits)
  next
    case other
    with assms post rv show ?thesis by (simp only: rest_observe_def) simp
  qed
  with post rv show ?thesis by blast
qed

lemma rest_call_cases:
  assumes "obs \<in> set (snd (handle env self request))"
  shows "hr_method request = ''POST'' \<and> is_success (hs_status (fst (handle env self request))) \<and>
    snd (handle env self request) = [obs] \<and> snd (charged_to obs) = hr_remote_addr request \<and>
    (\<exists>verb. resource_and_verb (uri_path (hr_uri request)) = Some (fst (charged_to obs), verb))"
proof -
  from assms obtain body u response response_body where
    eq: "handle env self request = (rebuild_response request response response_body,
      rest_observe env self (hr_method request) (uri_path (hr_uri request)) (hr_headers request) body
        (hs_status response) (hs_headers response) response_body (hr_remote_addr request))"
    by (auto simp: handle_def Let_def split: option.splits)
  with assms have "obs \<in> set (rest_observe env self (hr_method request) (uri_path (hr_uri request))
      (hr_headers request) body (hs_status response) (hs_headers response) response_body (hr_remote_addr request))"
    by simp
  from rest_observe_cases [OF this] show ?thesis
    by (auto simp: eq rebuild_response_def)
qed


subsection \<open>The two protocols agree\<close>

text \<open>
  The proto3 JSON form of a message: default-valued fields are left out, bytes are base64 in either
  alphabet.
\<close>

definition message_json :: "(bytes \<Rightarrow> string) \<Rightarrow> PubsubMessage \<Rightarrow> json" where
  "message_json enc m = JObject (
     (if hash_entries (msg_attributes m) = [] then []
      else [(''attributes'', JObject (map (\<lambda>(k, v). (k, JString v)) (hash_entries (msg_attributes m))))]) @
     (if msg_data m = [] then [] else [(''data'', JString (enc (msg_data m)))]) @
     (if msg_ordering_key m = '''' then [] else [(''orderingKey'', JString (msg_ordering_key m))]))"

definition publish_json :: "(bytes \<Rightarrow> string) \<Rightarrow> PubsubMessage list \<Rightarrow> json" where
  "publish_json enc ms = JObject [(''messages'', JArray (map (message_json enc) ms))]"

text \<open>What the decoders promise of an encoder: they undo it, in the first or the second alphabet.\<close>

definition decodes :: "('b, 'u) rest_env \<Rightarrow> (bytes \<Rightarrow> string) \<Rightarrow> bool" where
  "decodes env enc \<longleftrightarrow> (\<forall>d. base64_standard env (enc d) = Some d \<or>
     base64_standard env (enc d) = None \<and> base64_url_safe env (enc d) = Some d)"

lemma decode_base64_enc: "decodes env enc \<Longrightarrow> decode_base64 env (enc d) = d"
  by (auto simp: decodes_def decode_base64_def split: option.split dest!: spec [of _ d])

lemma map_filter_strings:
  "List.map_filter (\<lambda>(key, val). map_option (\<lambda>val. (key, val)) (as_str val))
     (map (\<lambda>(k, v). (k, JString v)) xs) = xs"
  by (induction xs) (auto simp: List.map_filter_simps)

lemma rest_capture_message_json:
  assumes "decodes env enc"
  shows "rest_capture env self (message_json enc m) = capture \<lparr>payload_cap = rp_payload_cap self\<rparr> hash_entries m"
proof -
  have "take (min (length (msg_data m)) (rp_payload_cap self)) (msg_data m) = take (rp_payload_cap self) (msg_data m)"
    by (simp add: min_def)
  then show ?thesis
    by (cases "hash_entries (msg_attributes m) = []"; cases "msg_data m = []"; cases "msg_ordering_key m = ''''")
      (simp_all add: rest_capture_def message_json_def capture_def Let_def decode_base64_enc [OF assms]
        map_filter_strings [unfolded case_prod_unfold] case_prod_unfold)
qed


subsection \<open>A concrete environment\<close>

definition byte_chars :: "bytes \<Rightarrow> string" where
  "byte_chars bs = map (\<lambda>b. char_of (unat b)) bs"

definition sample_message :: PubsubMessage where
  "sample_message = \<lparr>msg_data = [104, 105], msg_attributes = Mapping.empty, msg_ordering_key = ''''\<rparr>"

definition sample_env :: "(bytes, string) rest_env" where
  "sample_env = \<lparr>collect_limited = (\<lambda>limit body. if length body \<le> limit then Some body else None),
     parse_uri = Some,
     send_upstream = (\<lambda>_. Some \<lparr>hs_status = 200, hs_version = HTTP_11,
       hs_headers = [(''connection'', ''close''), (''etag'', ''e'')], hs_body = [7]\<rparr>),
     parse_json = (\<lambda>_. Some (publish_json byte_chars [sample_message])), json_text = (\<lambda>_. []),
     gunzip = (\<lambda>_. None), base64_standard = (\<lambda>s. Some (map (\<lambda>c. of_nat (of_char c)) s)),
     base64_url_safe = (\<lambda>_. None), canonical_reason = (\<lambda>_. None)\<rparr>"

definition sample_proxy :: RestProxy where
  "sample_proxy = \<lparr>rp_upstream = ''up:1'', rp_payload_cap = 1\<rparr>"

definition sample_request :: "bytes http_request" where
  "sample_request = \<lparr>hr_method = ''POST'',
     hr_uri = \<lparr>uri_path = ''/v1/projects/p/topics/t:publish'', uri_path_and_query = None\<rparr>,
     hr_version = HTTP_11, hr_headers = [(''host'', ''proxy''), (''authorization'', ''b'')],
     hr_remote_addr = None, hr_body = [1]\<rparr>"

lemma sample_env_decodes: "decodes sample_env byte_chars"
proof -
  have "of_nat (of_char (char_of (unat b) :: char)) = b" for b :: u8
  proof -
    have "unat b < 2 ^ LENGTH(8)" by (rule unsigned_less)
    then show ?thesis by simp
  qed
  then show ?thesis by (simp add: decodes_def sample_env_def byte_chars_def comp_def)
qed

lemmas sample_defs = sample_env_def sample_proxy_def sample_request_def sample_message_def

lemma sample_observation:
  "snd (handle sample_env sample_proxy sample_request) =
     [Publish ''projects/p/topics/t'' None [capture \<lparr>payload_cap = 1\<rparr> hash_entries sample_message]]"
proof -
  have rv: "resource_and_verb ''/v1/projects/p/topics/t:publish'' = Some (''projects/p/topics/t'', ''publish'')"
    by (simp add: resource_and_verb_Some)
  have "captured_messages sample_env sample_proxy [1] =
      [capture \<lparr>payload_cap = 1\<rparr> hash_entries sample_message]"
    using rest_capture_message_json [OF sample_env_decodes, of sample_proxy]
    by (simp add: captured_messages_def publish_json_def sample_env_def sample_proxy_def)
  then show ?thesis
    by (simp add: handle_def rest_observe_def rv sample_env_def sample_request_def MAX_MESSAGE_SIZE_def
        is_success_def decoded_def header_get_def)
qed


theorem rest_relays_verbatim_witness:
  "header_values (hs_headers (fst (handle sample_env sample_proxy sample_request))) ''etag'' = [''e''] \<and>
   header_values (hs_headers (fst (handle sample_env sample_proxy sample_request))) ''connection'' = []"
proof -
  let ?response = "\<lparr>hs_status = 200, hs_version = HTTP_11,
       hs_headers = [(''connection'', ''close''), (''etag'', ''e'')], hs_body = [7]\<rparr> :: bytes http_response"
  have "\<forall>n. n \<noteq> ''content-length'' \<longrightarrow>
      header_values (hs_headers (fst (handle sample_env sample_proxy sample_request))) n =
        (if n \<in> set HOP_BY_HOP then [] else header_values (hs_headers ?response) n)"
    using rest_relays_verbatim [where env = sample_env and request = sample_request and body = "[1]"
        and self = sample_proxy and u = "''http://up:1/v1/projects/p/topics/t:publish''"
        and response = ?response and response_body = "[7]", OF _ _ refl _ _ refl]
    by (simp add: sample_env_def sample_proxy_def sample_request_def MAX_MESSAGE_SIZE_def path_and_query_of_def)
  then show ?thesis by (simp add: HOP_BY_HOP_def header_values_def)
qed


end
