(* ===== verification/Subscriber.thy ===== *)
theory Subscriber
  imports Rpc "HOL-Library.Sublist"
begin

text \<open>
  \<^verbatim>\<open>src/proxy/subscriber.rs\<close>: the proxied \<open>Subscriber\<close> service. \<open>Pull\<close> and \<open>Acknowledge\<close> are
  unary taps; \<open>StreamingPull\<close> is two concurrent pumps, modelled as a state machine whose events are
  the points at which the task is resumed.
\<close>

subsection \<open>Unary calls\<close>

record PullRequest =
  pull_subscription :: string

record AcknowledgeRequest =
  ack_subscription :: string
  ack_request_ids :: "string list"

record 'x PullResponse =
  pull_received_messages :: "'x list"

definition pull ::
  "(PullRequest, 'e, 'x PullResponse) upstream \<Rightarrow> PullRequest grpc_request \<Rightarrow> ('e, 'x PullResponse) outcome" where
  "pull up request =
     (let peer = rq_remote_addr request;
          subscription = pull_subscription (rq_message request)
      in case up request of
           Inl status \<Rightarrow> (Inl status, [])
         | Inr response \<Rightarrow>
             (let messages = of_nat (length (pull_received_messages response))
              in (Inr response, [Deliver subscription peer messages])))"

definition acknowledge ::
  "(AcknowledgeRequest, 'e, unit) upstream \<Rightarrow> AcknowledgeRequest grpc_request \<Rightarrow> ('e, unit) outcome" where
  "acknowledge up request =
     (let peer = rq_remote_addr request;
          subscription = ack_subscription (rq_message request);
          messages = of_nat (length (ack_request_ids (rq_message request)))
      in case up request of
           Inl status \<Rightarrow> (Inl status, [])
         | Inr response \<Rightarrow> (Inr response, [Ack subscription peer messages]))"

interpretation pulling: transparent_rpc pull
  by unfold_locales (simp_all add: pull_def Let_def split: sum.split)

interpretation acking: transparent_rpc acknowledge
  by unfold_locales (simp_all add: acknowledge_def Let_def split: sum.split)

datatype subscriber_method =
  CreateSubscription | GetSubscription | UpdateSubscription | ListSubscriptions | DeleteSubscription
  | ModifyAckDeadline | ModifyPushConfig | GetSnapshot | ListSnapshots | CreateSnapshot
  | UpdateSnapshot | DeleteSnapshot | Seek

definition subscriber_forward ::
  "(subscriber_method \<Rightarrow> ('m, 'e, 'r) upstream) \<Rightarrow> subscriber_method \<Rightarrow> 'm grpc_request \<Rightarrow> ('e, 'r) outcome" where
  "subscriber_forward up rpc request = forward_rpc (up rpc) request"

interpretation forwarded_sub: transparent_rpc "\<lambda>up request. subscriber_forward (\<lambda>_. up) rpc request"
  by unfold_locales (simp_all add: subscriber_forward_def forward_rpc_def)

subsection \<open>StreamingPull\<close>

text \<open>
  A client frame names the subscription (in the first frame) and acknowledges messages; a server
  frame delivers messages. What else the frames carry (\<open>'x\<close>, \<open>'y\<close>) is relayed unread.
\<close>

record 'x StreamingPullRequest =
  sp_subscription :: string
  sp_ack_ids :: "string list"
  sp_rest :: 'x

record 'y StreamingPullResponse =
  sp_received_messages :: "'y list"

text \<open>
  Where each pump is suspended. Inbound: waiting for a client frame, sending one upstream, or ended.
  Outbound: about to call the upstream, waiting for the call's answer, waiting for a server frame,
  sending a frame or a final error to the client, or ended.
\<close>

datatype 'x inbound_at = Reading | SendingUp "'x StreamingPullRequest" | InboundEnded
datatype ('e, 'y) outbound_at =
    Calling | Connecting | Receiving | SendingDown "'y StreamingPullResponse" | SendingStatus 'e | OutboundEnded

text \<open>
  The two pumps' shared state. \<open>sent_up\<close> and \<open>sent_down\<close> are what went into the two channels,
  \<open>emitted\<close> what went into the sink, all oldest first; \<open>read_up\<close> and \<open>read_down\<close> record what was
  read from the client and the upstream.
\<close>

record ('e, 'x, 'y) pumps =
  subscription_cell :: string
  opened :: bool
  inbound_at :: "'x inbound_at"
  outbound_at :: "('e, 'y) outbound_at"
  closed_down :: bool
  upstream_metadata :: "(string \<times> string) list option"
  read_up :: "'x StreamingPullRequest list"
  sent_up :: "'x StreamingPullRequest list"
  read_down :: "('e + 'y StreamingPullResponse) list"
  sent_down :: "('e + 'y StreamingPullResponse) list"
  emitted :: "observation list"

datatype ('e, 'x, 'y) pump_event =
    ClientFrame "'x StreamingPullRequest"
  | ClientEnded
  | UpAccepted
  | UpRefused
  | CallUpstream
  | UpstreamAnswered
  | UpstreamFailed 'e
  | ServerFrame "'y StreamingPullResponse"
  | ServerFailed 'e
  | ServerEnded
  | DownAccepted
  | DownRefused
  | TearDown

definition pumps_start :: "('e, 'x, 'y) pumps" where
  "pumps_start = \<lparr>subscription_cell = '''', opened = False, inbound_at = Reading, outbound_at = Calling,
     closed_down = False, upstream_metadata = None, read_up = [], sent_up = [], read_down = [],
     sent_down = [], emitted = []\<rparr>"

text \<open>What the inbound pump does with a decoded frame before it forwards it.\<close>

definition tap_client_frame ::
  "socket_addr option \<Rightarrow> 'x StreamingPullRequest \<Rightarrow> ('e, 'x, 'y) pumps \<Rightarrow> ('e, 'x, 'y) pumps" where
  "tap_client_frame peer req p =
     (let p = (if sp_subscription req \<noteq> ''''
               then (let p = p\<lparr>subscription_cell := sp_subscription req\<rparr>
                     in if \<not> opened p
                        then p\<lparr>opened := True, emitted := emitted p @ [ConsumerOpen (sp_subscription req) peer]\<rparr>
                        else p)
               else p)
      in if sp_ack_ids req \<noteq> []
         then p\<lparr>emitted := emitted p @ [Ack (subscription_cell p) peer (of_nat (length (sp_ack_ids req)))]\<rparr>
         else p)"

text \<open>What the outbound pump does with a server frame before it forwards it.\<close>

definition tap_server_frame ::
  "socket_addr option \<Rightarrow> 'y StreamingPullResponse \<Rightarrow> ('e, 'x, 'y) pumps \<Rightarrow> ('e, 'x, 'y) pumps" where
  "tap_server_frame peer resp p =
     (let messages = of_nat (length (sp_received_messages resp)) :: u64
      in if messages > 0
         then p\<lparr>emitted := emitted p @ [Deliver (subscription_cell p) peer messages]\<rparr> else p)"

text \<open>After the \<open>select!\<close>: close the consumer if it was opened.\<close>

definition tear_down :: "socket_addr option \<Rightarrow> ('e, 'x, 'y) pumps \<Rightarrow> ('e, 'x, 'y) pumps" where
  "tear_down peer p =
     (let p = p\<lparr>closed_down := True\<rparr>
      in if opened p then p\<lparr>emitted := emitted p @ [ConsumerClose (subscription_cell p) peer]\<rparr> else p)"

text \<open>
  One event. Once either pump has ended the \<open>select!\<close> drops the other, so only the tear-down is left;
  an event that does not fit the point a pump is suspended at cannot happen and changes nothing.
\<close>

definition pump_ended :: "('e, 'x, 'y) pumps \<Rightarrow> bool" where
  "pump_ended p \<longleftrightarrow> (case inbound_at p of InboundEnded \<Rightarrow> True | _ \<Rightarrow> False) \<or>
     (case outbound_at p of OutboundEnded \<Rightarrow> True | _ \<Rightarrow> False)"

fun inbound_step ::
  "socket_addr option \<Rightarrow> ('e, 'x, 'y) pump_event \<Rightarrow> 'x inbound_at \<Rightarrow> ('e, 'x, 'y) pumps \<Rightarrow> ('e, 'x, 'y) pumps" where
  "inbound_step peer (ClientFrame req) Reading p =
     (tap_client_frame peer req (p\<lparr>read_up := read_up p @ [req]\<rparr>))\<lparr>inbound_at := SendingUp req\<rparr>"
| "inbound_step peer ClientEnded Reading p = p\<lparr>inbound_at := InboundEnded\<rparr>"
| "inbound_step peer UpAccepted (SendingUp req) p = p\<lparr>sent_up := sent_up p @ [req], inbound_at := Reading\<rparr>"
| "inbound_step peer UpRefused (SendingUp req) p = p\<lparr>inbound_at := InboundEnded\<rparr>"
| "inbound_step peer _ _ p = p"

fun outbound_step ::
  "socket_addr option \<Rightarrow> (string \<times> string) list \<Rightarrow> ('e, 'x, 'y) pump_event \<Rightarrow> ('e, 'y) outbound_at \<Rightarrow>
   ('e, 'x, 'y) pumps \<Rightarrow> ('e, 'x, 'y) pumps" where
  "outbound_step peer metadata CallUpstream Calling p =
     p\<lparr>upstream_metadata := Some metadata, outbound_at := Connecting\<rparr>"
| "outbound_step peer metadata UpstreamAnswered Connecting p = p\<lparr>outbound_at := Receiving\<rparr>"
| "outbound_step peer metadata (UpstreamFailed status) Connecting p =
     p\<lparr>read_down := read_down p @ [Inl status], outbound_at := SendingStatus status\<rparr>"
| "outbound_step peer metadata (ServerFrame resp) Receiving p =
     (tap_server_frame peer resp (p\<lparr>read_down := read_down p @ [Inr resp]\<rparr>))\<lparr>outbound_at := SendingDown resp\<rparr>"
| "outbound_step peer metadata (ServerFailed status) Receiving p =
     p\<lparr>read_down := read_down p @ [Inl status], outbound_at := SendingStatus status\<rparr>"
| "outbound_step peer metadata ServerEnded Receiving p = p\<lparr>outbound_at := OutboundEnded\<rparr>"
| "outbound_step peer metadata DownAccepted (SendingDown resp) p =
     p\<lparr>sent_down := sent_down p @ [Inr resp], outbound_at := Receiving\<rparr>"
| "outbound_step peer metadata DownRefused (SendingDown resp) p = p\<lparr>outbound_at := OutboundEnded\<rparr>"
| "outbound_step peer metadata DownAccepted (SendingStatus status) p =
     p\<lparr>sent_down := sent_down p @ [Inl status], outbound_at := OutboundEnded\<rparr>"
| "outbound_step peer metadata DownRefused (SendingStatus status) p = p\<lparr>outbound_at := OutboundEnded\<rparr>"
| "outbound_step peer metadata _ _ p = p"

definition pump_step ::
  "socket_addr option \<Rightarrow> (string \<times> string) list \<Rightarrow> ('e, 'x, 'y) pump_event \<Rightarrow> ('e, 'x, 'y) pumps \<Rightarrow> ('e, 'x, 'y) pumps" where
  "pump_step peer metadata event p =
     (if closed_down p then p
      else if pump_ended p then (case event of TearDown \<Rightarrow> tear_down peer p | _ \<Rightarrow> p)
      else let p = inbound_step peer event (inbound_at p) p
           in outbound_step peer metadata event (outbound_at p) p)"

abbreviation pump_run ::
  "socket_addr option \<Rightarrow> (string \<times> string) list \<Rightarrow> ('e, 'x, 'y) pump_event list \<Rightarrow> ('e, 'x, 'y) pumps" where
  "pump_run peer metadata events \<equiv> fold (pump_step peer metadata) events pumps_start"

end
