(* ===== verification/Proxy_Server.thy ===== *)
theory Proxy_Server
  imports Rest Subscriber
begin

text \<open>
  \<^verbatim>\<open>src/proxy/mod.rs\<close>: one listener for both protocols. \<open>serve\<close> builds the two gRPC services and the
  REST relay from the same arguments; a request reaches a service when its path is below the service's
  name and the relay otherwise. Listening, decompression and refusing what exceeds a limit are the server
  library's; which of them \<open>serve\<close> asks for is part of what it builds.
\<close>

datatype service = PublisherRoute | SubscriberRoute | RestRoute

definition below :: "string \<Rightarrow> string \<Rightarrow> bool" where
  "below pre path = (case strip_prefix pre path of None \<Rightarrow> False | Some rest \<Rightarrow> rest \<noteq> '''')"

definition route :: "string \<Rightarrow> service" where
  "route path =
     (if below ''/google.pubsub.v1.Publisher/'' path then PublisherRoute
      else if below ''/google.pubsub.v1.Subscriber/'' path then SubscriberRoute
      else RestRoute)"

text \<open>What a gRPC service is asked to accept: gzip, and messages up to a size in either direction.\<close>

record grpc_limits =
  gl_gzip :: bool
  gl_max_decoding :: nat
  gl_max_encoding :: nat

definition proxy_limits :: grpc_limits where
  "proxy_limits = \<lparr>gl_gzip = True, gl_max_decoding = MAX_MESSAGE_SIZE, gl_max_encoding = MAX_MESSAGE_SIZE\<rparr>"

text \<open>
  The constructors of the two services: the client each forwards with has its own limits, the same as those
  of the server side; the publisher also keeps the cap on what it captures.
\<close>

record grpc_client =
  gc_channel :: string
  gc_limits :: grpc_limits

definition proxy_publisher_new :: "string \<Rightarrow> nat \<Rightarrow> grpc_client \<times> ProxyPublisher" where
  "proxy_publisher_new channel cap =
     (\<lparr>gc_channel = channel, gc_limits = \<lparr>gl_gzip = True, gl_max_decoding = MAX_MESSAGE_SIZE, gl_max_encoding = MAX_MESSAGE_SIZE\<rparr>\<rparr>,
      \<lparr>payload_cap = cap\<rparr>)"

definition proxy_subscriber_new :: "string \<Rightarrow> grpc_client" where
  "proxy_subscriber_new channel =
     \<lparr>gc_channel = channel, gc_limits = \<lparr>gl_gzip = True, gl_max_decoding = MAX_MESSAGE_SIZE, gl_max_encoding = MAX_MESSAGE_SIZE\<rparr>\<rparr>"

definition rest_proxy_new :: "string \<Rightarrow> nat \<Rightarrow> RestProxy" where
  "rest_proxy_new upstream cap = \<lparr>rp_upstream = upstream, rp_payload_cap = cap\<rparr>"

text \<open>The server: where it listens, the upstream both gRPC services share, the services, and whether it speaks HTTP/1.1.\<close>

record 'addr proxy_server =
  px_listen :: 'addr
  px_channel :: string
  px_publisher :: ProxyPublisher
  px_publisher_client :: grpc_client
  px_subscriber_client :: grpc_client
  px_publisher_limits :: grpc_limits
  px_subscriber_limits :: grpc_limits
  px_rest :: RestProxy
  px_http1 :: bool

text \<open>\<open>channel_ok\<close>: whether \<open>Channel::from_shared\<close> accepts the upstream's address as a URI.\<close>

definition serve :: "(string \<Rightarrow> bool) \<Rightarrow> 'addr \<Rightarrow> string \<Rightarrow> nat \<Rightarrow> 'addr proxy_server option" where
  "serve channel_ok listen upstream cap =
     (let uri = ''http://'' @ upstream
      in if \<not> channel_ok uri then None
         else let rest = rest_proxy_new upstream cap;
                  (publisher_client, publisher) = proxy_publisher_new uri cap;
                  subscriber_client = proxy_subscriber_new uri
              in Some \<lparr>px_listen = listen, px_channel = uri, px_publisher = publisher,
                   px_publisher_client = publisher_client, px_subscriber_client = subscriber_client,
                   px_publisher_limits = proxy_limits, px_subscriber_limits = proxy_limits,
                   px_rest = rest, px_http1 = True\<rparr>)"

lemmas serve_defs = serve_def rest_proxy_new_def proxy_publisher_new_def proxy_subscriber_new_def Let_def

text \<open>
  No hop of the proxy is stricter than another: what the server side may decode its client may encode, and
  the other way round, for the same upstream and the same cap on both protocols.
\<close>

lemma serve_uniform:
  assumes "serve channel_ok listen upstream cap = Some px"
  shows "gc_limits (px_publisher_client px) = px_publisher_limits px" "gc_limits (px_subscriber_client px) = px_subscriber_limits px"
    "gc_channel (px_publisher_client px) = px_channel px" "gc_channel (px_subscriber_client px) = px_channel px"
    "px_channel px = ''http://'' @ rp_upstream (px_rest px)" "payload_cap (px_publisher px) = rp_payload_cap (px_rest px)"
  using assms by (auto simp: serve_defs proxy_limits_def split: if_splits)

lemma below_iff: "below pre path \<longleftrightarrow> (\<exists>rest. rest \<noteq> [] \<and> path = pre @ rest)"
proof (cases "strip_prefix pre path")
  case None
  then have "path \<noteq> pre @ rest" for rest using strip_prefix_Some [of pre path rest] by simp
  with None show ?thesis by (simp add: below_def)
next
  case (Some rest)
  then have "path = pre @ rest" by (simp add: strip_prefix_Some)
  with Some show ?thesis by (auto simp: below_def)
qed

text \<open>
  Routing never takes a call away from the relay that observes it, nor from a service: a path
  the relay reads as a Pub/Sub REST call is routed to the relay, a method of a gRPC service to that
  service alone, and a path of a gRPC service is none the relay would observe.
\<close>

theorem routing_separates_protocols:
  "(route path = PublisherRoute \<longleftrightarrow> (\<exists>m. m \<noteq> '''' \<and> path = ''/google.pubsub.v1.Publisher/'' @ m)) \<and>
   (route path = SubscriberRoute \<longleftrightarrow> (\<exists>m. m \<noteq> '''' \<and> path = ''/google.pubsub.v1.Subscriber/'' @ m)) \<and>
   (resource_and_verb path = None \<or> route path = RestRoute)"
proof (intro conjI)
  show "route path = PublisherRoute \<longleftrightarrow> (\<exists>m. m \<noteq> '''' \<and> path = ''/google.pubsub.v1.Publisher/'' @ m)"
    by (simp add: route_def below_iff)
  have apart: "''/google.pubsub.v1.Subscriber/'' @ m \<noteq> ''/google.pubsub.v1.Publisher/'' @ m'" for m m' by simp
  then show "route path = SubscriberRoute \<longleftrightarrow> (\<exists>m. m \<noteq> '''' \<and> path = ''/google.pubsub.v1.Subscriber/'' @ m)"
    by (auto simp: route_def below_iff)
  have "route path = RestRoute" if "path = ''/v1/'' @ rest" for rest
    using that by (simp add: route_def below_iff)
  moreover have "\<exists>rest. path = ''/v1/'' @ rest" if "resource_and_verb path \<noteq> None"
    using that by (auto simp: resource_and_verb_def strip_prefix_Some split: option.splits)
  ultimately show "resource_and_verb path = None \<or> route path = RestRoute" by blast
qed

end
