(* ===== verification/Poller.thy ===== *)
theory Poller
  imports State_Props
begin

text \<open>
  \<^verbatim>\<open>src/poller.rs\<close>: the task that lists topics and subscriptions on a fixed interval. The Pub/Sub client
  is a library: it is a record of what its calls return; the ticker is an argument.
\<close>

record PollConfig =
  poll_project_id :: string
  poll_upstream :: string
  poll_interval_ms :: u64

text \<open>
  A client: its topic listing, its subscription listing, the name of a subscription and its
  configuration, of which the program uses the topic.
\<close>

record ('s, 'e) admin_client =
  get_topics :: "'e + string list"
  get_subscriptions :: "'e + 's list"
  fully_qualified_name :: "'s \<Rightarrow> string"
  config_topic :: "'s \<Rightarrow> 'e + string"

definition CONNECT_RETRY_DELAY :: duration where
  "CONNECT_RETRY_DELAY = from_secs 1"

text \<open>The loop over the subscriptions; a failed configuration call skips the subscription.\<close>

fun collect_subscriptions :: "('s, 'e) admin_client \<Rightarrow> 's list \<Rightarrow> SubscriptionInfo list \<Rightarrow> SubscriptionInfo list" where
  "collect_subscriptions client [] acc = acc"
| "collect_subscriptions client (sub # subs) acc =
     (let name = fully_qualified_name client sub
      in case config_topic client sub of
           Inr topic \<Rightarrow> collect_subscriptions client subs (acc @ [\<lparr>si_name = name, si_topic = topic\<rparr>])
         | Inl err \<Rightarrow> collect_subscriptions client subs acc)"

definition poll_once :: "('s, 'e) admin_client \<Rightarrow> 'e + observation" where
  "poll_once client =
     (case get_topics client of Inl err \<Rightarrow> Inl err
      | Inr names \<Rightarrow>
          (case get_subscriptions client of Inl err \<Rightarrow> Inl err
           | Inr subs \<Rightarrow> Inr (AdminSnapshot names (collect_subscriptions client subs []))))"

text \<open>
  Connecting, with \<open>attempts k\<close> the outcome of the \<open>k\<close>-th attempt: the loop has no bound, so the result
  is the client and the number of the attempt that succeeded, or \<open>None\<close> when none ever does. Between two
  attempts the task sleeps for \<open>CONNECT_RETRY_DELAY\<close>.
\<close>

partial_function (option) connect_with_retry :: "(nat \<Rightarrow> 'e + 'c) \<Rightarrow> nat \<Rightarrow> ('c \<times> nat) option" where
  "connect_with_retry attempts k =
     (case attempts k of Inr client \<Rightarrow> Some (client, k) | Inl err \<Rightarrow> connect_with_retry attempts (Suc k))"

text \<open>
  The polling loop over the first \<open>n\<close> ticks, \<open>clients k\<close> being what the server answers at tick \<open>k\<close>.
  \<open>make_ticker\<close> is the ticker's constructor, which refuses some periods by panicking (\<open>None\<close>).
\<close>

definition poll_tick :: "('s, 'e) admin_client \<Rightarrow> observation list" where
  "poll_tick client = (case poll_once client of Inr snapshot \<Rightarrow> [snapshot] | Inl err \<Rightarrow> [])"

definition run_poller ::
  "(duration \<Rightarrow> 't option) \<Rightarrow> PollConfig \<Rightarrow> (nat \<Rightarrow> ('s, 'e) admin_client) \<Rightarrow> nat \<Rightarrow> observation list option" where
  "run_poller make_ticker config clients n =
     (case make_ticker (from_millis (poll_interval_ms config)) of
        None \<Rightarrow> None
      | Some ticker \<Rightarrow> Some (concat (map (\<lambda>k. poll_tick (clients k)) [0..<n])))"

text \<open>
  The client is made for the configured project and talks to the upstream itself, never to the proxy; \<open>new\<close>
  is the library's constructor.
\<close>

record client_config =
  cc_project_id :: "string option"
  cc_emulator :: string

definition connect :: "(client_config \<Rightarrow> 'e + 'c) \<Rightarrow> string \<Rightarrow> string \<Rightarrow> 'e + 'c" where
  "connect new project_id upstream = new \<lparr>cc_project_id = Some project_id, cc_emulator = upstream\<rparr>"

text \<open>
  The whole task over \<open>n\<close> ticks, \<open>new k\<close> being the constructor at the \<open>k\<close>-th attempt and \<open>answers\<close> what the
  server answers a client at each tick. It may still be connecting, or be ended by a panic of the ticker.
\<close>

datatype poller_outcome = Still_Connecting | Ticker_Panicked | Polled "observation list"

definition poller_task ::
  "(nat \<Rightarrow> client_config \<Rightarrow> 'e + 'c) \<Rightarrow> (duration \<Rightarrow> 't option) \<Rightarrow> PollConfig \<Rightarrow>
   ('c \<Rightarrow> nat \<Rightarrow> ('s, 'f) admin_client) \<Rightarrow> nat \<Rightarrow> poller_outcome" where
  "poller_task new make_ticker config answers n =
     (case connect_with_retry (\<lambda>k. connect (new k) (poll_project_id config) (poll_upstream config)) 0 of
        None \<Rightarrow> Still_Connecting
      | Some (client, k) \<Rightarrow>
          (case run_poller make_ticker config (answers client) n of
             None \<Rightarrow> Ticker_Panicked
           | Some snapshots \<Rightarrow> Polled snapshots))"

subsection \<open>Facts\<close>

lemma collect_subscriptions_eq:
  "collect_subscriptions client subs acc = acc @
     List.map_filter (\<lambda>sub. case config_topic client sub of Inl err \<Rightarrow> None
       | Inr topic \<Rightarrow> Some \<lparr>si_name = fully_qualified_name client sub, si_topic = topic\<rparr>) subs"
  by (induction subs arbitrary: acc) (simp_all add: List.map_filter_simps Let_def split: sum.split)

lemma collected_names:
  "si_name ` set (collect_subscriptions client subs []) =
     {fully_qualified_name client sub |sub topic. sub \<in> set subs \<and> config_topic client sub = Inr topic}"
  by (induction subs) (auto simp: collect_subscriptions_eq List.map_filter_simps split: sum.splits)

lemma connect_with_retry_found:
  "attempts (k + d) = Inr client \<Longrightarrow> \<forall>j<d. \<exists>err. attempts (k + j) = Inl err \<Longrightarrow>
     connect_with_retry attempts k = Some (client, k + d)"
proof (induction d arbitrary: k)
  case 0
  then show ?case by (subst connect_with_retry.simps) simp
next
  case (Suc d)
  from Suc.prems(2) obtain err where "attempts k = Inl err" by force
  moreover have "connect_with_retry attempts (Suc k) = Some (client, Suc k + d)"
  proof (rule Suc.IH)
    show "\<forall>j<d. \<exists>err. attempts (Suc k + j) = Inl err"
      using Suc.prems(2) by (metis Suc_less_eq add_Suc_right add_Suc)
  qed (use Suc.prems(1) in simp)
  ultimately show ?case by (subst connect_with_retry.simps) simp
qed

lemma connect_with_retry_result:
  assumes "connect_with_retry attempts k = Some r"
  shows "k \<le> snd r \<and> attempts (snd r) = Inr (fst r) \<and> (\<forall>j. k \<le> j \<and> j < snd r \<longrightarrow> (\<exists>err. attempts j = Inl err))"
proof (rule connect_with_retry.raw_induct [where P = "\<lambda>attempts k r. k \<le> snd r \<and>
    attempts (snd r) = Inr (fst r) \<and> (\<forall>j. k \<le> j \<and> j < snd r \<longrightarrow> (\<exists>err. attempts j = Inl err))", OF _ assms])
  fix f as k r
  assume IH: "\<And>as k r. f as k = Some r \<Longrightarrow> k \<le> snd r \<and> as (snd r) = Inr (fst r) \<and>
      (\<forall>j. k \<le> j \<and> j < snd r \<longrightarrow> (\<exists>err. as j = Inl err))"
    and step: "(case as k of Inl err \<Rightarrow> f as (Suc k) | Inr client \<Rightarrow> Some (client, k)) = Some r"
  show "k \<le> snd r \<and> as (snd r) = Inr (fst r) \<and> (\<forall>j. k \<le> j \<and> j < snd r \<longrightarrow> (\<exists>err. as j = Inl err))"
  proof (cases "as k")
    case (Inl err)
    then have "f as (Suc k) = Some r" using step by simp
    from IH [OF this] Inl show ?thesis by (metis Suc_leD Suc_leI le_neq_implies_less)
  next
    case (Inr client)
    with step show ?thesis by auto
  qed
qed

text \<open>The retry loop returns the client of the first attempt that succeeds, and does not return when none does.\<close>

lemma connect_takes_first:
  "connect_with_retry attempts 0 =
     (if \<exists>k. \<exists>client. attempts k = Inr client
      then (let k = (LEAST k. \<exists>client. attempts k = Inr client) in Some (projr (attempts k), k))
      else None)"
proof (cases "\<exists>k. \<exists>client. attempts k = Inr client")
  case True
  define k where "k = (LEAST k. \<exists>client. attempts k = Inr client)"
  have "\<exists>client. attempts k = Inr client"
    unfolding k_def by (rule LeastI_ex [OF True])
  then obtain client where client: "attempts k = Inr client" by blast
  have "\<exists>err. attempts j = Inl err" if "j < k" for j
    using not_less_Least [OF that [unfolded k_def]] by (cases "attempts j") auto
  then have "connect_with_retry attempts 0 = Some (client, k)"
    using connect_with_retry_found [of attempts 0 k client] client by simp
  with True client show ?thesis by (simp add: k_def Let_def)
next
  case False
  then have "connect_with_retry attempts 0 = None"
    using connect_with_retry_result [of attempts 0] by (metis option.exhaust)
  with False show ?thesis by simp
qed

text \<open>A tick whose poll fails emits nothing and the loop goes on.\<close>

lemma poller_emits:
  "run_poller make_ticker config clients n =
     (if make_ticker (from_millis (poll_interval_ms config)) = None then None
      else Some (List.map_filter (\<lambda>k. case poll_once (clients k) of Inl err \<Rightarrow> None | Inr snapshot \<Rightarrow> Some snapshot) [0..<n]))"
proof -
  have "concat (map (\<lambda>k. poll_tick (clients k)) ks) =
      List.map_filter (\<lambda>k. case poll_once (clients k) of Inl err \<Rightarrow> None | Inr snapshot \<Rightarrow> Some snapshot) ks" for ks
    by (induction ks) (simp_all add: List.map_filter_simps poll_tick_def split: sum.split)
  then show ?thesis by (auto simp: run_poller_def split: option.split)
qed

subsection \<open>Properties\<close>

text \<open>
  Claim C32. The poller's fate: it polls exactly when some attempt to connect succeeds and the ticker accepts the
  configured period; then it asks the upstream of the configuration, through the client of the first
  attempt that succeeded, and over \<open>n\<close> ticks emits one snapshot per successful poll, in order, whatever
  fails in between. Otherwise it connects for ever, or panics before the first poll.
\<close>

theorem poller_fate:
  "poller_task new make_ticker config answers n =
     (let attempt = (\<lambda>k. new k \<lparr>cc_project_id = Some (poll_project_id config), cc_emulator = poll_upstream config\<rparr>);
          client = projr (attempt (LEAST k. \<exists>client. attempt k = Inr client))
      in if \<forall>k. \<exists>err. attempt k = Inl err then Still_Connecting
         else if make_ticker (from_millis (poll_interval_ms config)) = None then Ticker_Panicked
         else Polled (List.map_filter (\<lambda>k. case poll_once (answers client k) of Inl err \<Rightarrow> None | Inr snapshot \<Rightarrow> Some snapshot) [0..<n]))"
proof -
  let ?attempt = "\<lambda>k. new k \<lparr>cc_project_id = Some (poll_project_id config), cc_emulator = poll_upstream config\<rparr>"
  have "(\<exists>k client. ?attempt k = Inr client) \<longleftrightarrow> \<not> (\<forall>k. \<exists>err. ?attempt k = Inl err)"
    by (metis Inl_Inr_False obj_sumE)
  then show ?thesis
    by (simp add: poller_task_def connect_def connect_takes_first poller_emits Let_def)
qed


text \<open>
  A poll interval of zero stops the poller for good: the command line accepts it, and a
  ticker constructor that refuses a zero period then panics before the first poll, so no topic is ever
  listed.
\<close>

theorem zero_interval_never_polls:
  assumes "make_ticker 0 = None" and "poll_interval_ms config = 0"
  shows "run_poller make_ticker config clients n = None"
  using assms by (simp add: run_poller_def from_millis_def)

theorem zero_interval_never_polls_witness:
  "run_poller (\<lambda>period. if period = 0 then None else Some ()) \<lparr>poll_project_id = ''p'', poll_upstream = ''u'', poll_interval_ms = 0\<rparr>
     (\<lambda>_. \<lparr>get_topics = Inr [], get_subscriptions = Inr ([] :: unit list), fully_qualified_name = (\<lambda>_. ''''),
        config_topic = (\<lambda>_. Inl ())\<rparr>) 3 = None"
  by (rule zero_interval_never_polls) simp_all


end
