(* ===== verification/Cli.thy ===== *)
theory Cli
  imports Observer Proxy_Server Poller
begin

text \<open>
  \<^verbatim>\<open>src/cli.rs\<close> and \<^verbatim>\<open>src/bin/pub-sub-monitor.rs\<close>: the command lines of the three binaries with their
  declared defaults, and how the monitor's \<open>main\<close> wires the parts to its command line. Parsing the
  arguments and the environment is the library \<open>clap\<close>'s.
\<close>

record MonitorCli =
  mon_upstream :: string
  mon_listen :: string
  mon_state_listen :: string
  mon_project_id :: string
  mon_poll_interval_ms :: u64
  mon_recent_buffer :: nat
  mon_max_payload_bytes :: nat

record TuiCli =
  tui_monitor :: string
  tui_log_file :: string

record LoadgenCli =
  gen_endpoint :: string
  gen_project_id :: string
  gen_interval_ms :: u64
  gen_duration_secs :: u64
  gen_compress :: bool

definition monitor_defaults :: MonitorCli where
  "monitor_defaults = \<lparr>mon_upstream = ''localhost:8085'', mon_listen = ''0.0.0.0:8681'',
     mon_state_listen = ''0.0.0.0:8682'', mon_project_id = ''test-project'', mon_poll_interval_ms = 1000,
     mon_recent_buffer = 200, mon_max_payload_bytes = 64 * 1024\<rparr>"

definition tui_defaults :: TuiCli where
  "tui_defaults = \<lparr>tui_monitor = ''127.0.0.1:8682'', tui_log_file = ''pub-sub-tui.log''\<rparr>"

definition loadgen_defaults :: LoadgenCli where
  "loadgen_defaults = \<lparr>gen_endpoint = ''localhost:8681'', gen_project_id = ''test-project'',
     gen_interval_ms = 800, gen_duration_secs = 0, gen_compress = True\<rparr>"

subsection \<open>The monitor's parts\<close>

record 'addr monitor =
  the_observer :: observer
  the_poll_config :: PollConfig
  the_proxy :: "'addr proxy_server option"
  the_state_listen :: 'addr

text \<open>The errors \<open>main\<close> ends with, the first two with the address that was given.\<close>

datatype main_error = ParsingListen string | ParsingStateListen string | StateServerStopped

text \<open>
  \<open>main\<close> up to its last statement: \<open>parse\<close> is the standard library's parser of socket addresses, \<open>t0\<close> the
  time of the start. A bad listening address is an error; a proxy that cannot be built is logged and left
  out.
\<close>

definition monitor_main ::
  "(string \<Rightarrow> 'addr option) \<Rightarrow> (string \<Rightarrow> bool) \<Rightarrow> MonitorCli \<Rightarrow> instant \<Rightarrow> main_error + 'addr monitor" where
  "monitor_main parse channel_ok cli t0 =
     (case parse (mon_listen cli) of
        None \<Rightarrow> Inl (ParsingListen (mon_listen cli))
      | Some proxy_listen \<Rightarrow>
          (case parse (mon_state_listen cli) of
             None \<Rightarrow> Inl (ParsingStateListen (mon_state_listen cli))
           | Some state_listen \<Rightarrow>
               Inr \<lparr>the_observer = observer_start (mon_recent_buffer cli) t0,
                    the_poll_config = \<lparr>poll_project_id = mon_project_id cli, poll_upstream = mon_upstream cli,
                                       poll_interval_ms = mon_poll_interval_ms cli\<rparr>,
                    the_proxy = serve channel_ok proxy_listen (mon_upstream cli) (mon_max_payload_bytes cli),
                    the_state_listen = state_listen\<rparr>))"

text \<open>Its last statement: the state server's end, or an interrupt, ends the process.\<close>

datatype foreground = ServerReturned | ServerFailed | Interrupted

fun monitor_exit :: "foreground \<Rightarrow> main_error + unit" where
  "monitor_exit ServerFailed = Inl StateServerStopped"
| "monitor_exit ServerReturned = Inr ()"
| "monitor_exit Interrupted = Inr ()"

lemma monitor_main_parts:
  assumes "monitor_main parse channel_ok cli t0 = Inr m"
  shows "the_observer m = observer_start (mon_recent_buffer cli) t0"
    and "\<And>px. the_proxy m = Some px \<Longrightarrow> payload_cap (px_publisher px) = mon_max_payload_bytes cli \<and>
           rp_payload_cap (px_rest px) = mon_max_payload_bytes cli"
  using assms by (auto simp: monitor_main_def serve_defs Let_def split: option.splits if_splits)

end
