(* ===== verification/Theme.thy ===== *)
theory Theme
  imports Prelude
begin

text \<open>
  \<^verbatim>\<open>src/ui/theme.rs\<close>: the styles of the terminal interface; and the styled text the interface is made
  of: a span is a style with its content, a line a list of spans.
\<close>

datatype color = Rgb u8 u8 u8 | Gray | White | Yellow | Black | Red | Cyan | Green | Magenta

record style =
  style_bg :: "color option"
  style_fg :: "color option"
  style_bold :: bool

type_synonym span = "style \<times> string"
type_synonym line = "span list"

definition style_default :: style where
  "style_default = \<lparr>style_bg = None, style_fg = None, style_bold = False\<rparr>"

definition DESKTOP_BG :: color where "DESKTOP_BG = Rgb 0x00 0x00 0xAA"
definition TEXT :: color where "TEXT = Gray"
definition BRIGHT :: color where "BRIGHT = White"
definition ACCENT :: color where "ACCENT = Yellow"
definition BAR_BG :: color where "BAR_BG = Gray"
definition BAR_FG :: color where "BAR_FG = Black"
definition HOTKEY :: color where "HOTKEY = Red"
definition SELECT_BG :: color where "SELECT_BG = Cyan"
definition SELECT_FG :: color where "SELECT_FG = Black"

definition bg :: "color \<Rightarrow> style \<Rightarrow> style" where "bg c s = s\<lparr>style_bg := Some c\<rparr>"
definition fg :: "color \<Rightarrow> style \<Rightarrow> style" where "fg c s = s\<lparr>style_fg := Some c\<rparr>"
definition bold :: "style \<Rightarrow> style" where "bold s = s\<lparr>style_bold := True\<rparr>"

definition theme_base :: style where
  "theme_base = fg TEXT (bg DESKTOP_BG style_default)"

definition theme_title :: style where
  "theme_title = bold (fg ACCENT (bg DESKTOP_BG style_default))"

definition theme_border :: style where
  "theme_border = fg BRIGHT (bg DESKTOP_BG style_default)"

definition theme_border_focused :: style where
  "theme_border_focused = bold (fg ACCENT (bg DESKTOP_BG style_default))"

definition theme_label :: style where
  "theme_label = fg BRIGHT (bg DESKTOP_BG style_default)"

definition theme_count :: style where
  "theme_count = bold (fg ACCENT (bg DESKTOP_BG style_default))"

definition theme_publisher :: style where
  "theme_publisher = fg Cyan (bg DESKTOP_BG style_default)"

definition theme_consumer :: style where
  "theme_consumer = fg Green (bg DESKTOP_BG style_default)"

definition theme_selected :: style where
  "theme_selected = bold (fg SELECT_FG (bg SELECT_BG style_default))"

definition theme_bar :: style where
  "theme_bar = fg BAR_FG (bg BAR_BG style_default)"

definition theme_hotkey :: style where
  "theme_hotkey = bold (fg HOTKEY (bg BAR_BG style_default))"

definition theme_status_ok :: style where
  "theme_status_ok = bold (fg Green (bg BAR_BG style_default))"

definition theme_status_warn :: style where
  "theme_status_warn = bold (fg HOTKEY (bg BAR_BG style_default))"

lemmas theme_colours = DESKTOP_BG_def TEXT_def BRIGHT_def ACCENT_def BAR_BG_def BAR_FG_def HOTKEY_def
  SELECT_BG_def SELECT_FG_def bg_def fg_def bold_def style_default_def

lemmas theme_styles = theme_base_def theme_title_def theme_border_def theme_border_focused_def
  theme_label_def theme_count_def theme_publisher_def theme_consumer_def theme_selected_def theme_bar_def
  theme_hotkey_def theme_status_ok_def theme_status_warn_def

text \<open>Every style states both its colours, and they differ: no text is invisible.\<close>

definition visible :: "style \<Rightarrow> bool" where
  "visible s \<longleftrightarrow> style_fg s \<noteq> None \<and> style_bg s \<noteq> None \<and> style_fg s \<noteq> style_bg s"

lemma theme_visible [simp]:
  "visible theme_base" "visible theme_title" "visible theme_border" "visible theme_border_focused"
  "visible theme_label" "visible theme_count" "visible theme_publisher" "visible theme_consumer"
  "visible theme_selected" "visible theme_bar" "visible theme_hotkey" "visible theme_status_ok"
  "visible theme_status_warn"
  by (simp_all add: visible_def theme_styles theme_colours)

text \<open>Focus and selection show: the two border styles differ, so do the two status styles.\<close>

lemma theme_distinct:
  "theme_border_focused \<noteq> theme_border" "theme_status_ok \<noteq> theme_status_warn" "theme_selected \<noteq> theme_base"
  by (simp_all add: theme_styles theme_colours)

subsection \<open>Text\<close>

definition line_text :: "line \<Rightarrow> string" where
  "line_text spans = concat (map snd spans)"

text \<open>\<open>s.chars().count()\<close>: the UTF-8 bytes of \<open>s\<close> that are no continuation bytes.\<close>

definition chars_count :: "string \<Rightarrow> nat" where
  "chars_count s = length (filter (\<lambda>c. \<not> (128 \<le> (of_char c :: nat) \<and> (of_char c :: nat) < 192)) s)"

lemma chars_count_append [simp]: "chars_count (s @ t) = chars_count s + chars_count t"
  by (simp add: chars_count_def)

lemma chars_count_Nil [simp]: "chars_count [] = 0"
  by (simp add: chars_count_def)

text \<open>\<open>" ".repeat(n)\<close>\<close>

definition spaces :: "nat \<Rightarrow> string" where
  "spaces n = replicate n (CHR '' '')"

lemma chars_count_spaces [simp]: "chars_count (spaces n) = n"
  by (simp add: chars_count_def spaces_def)

end
