(* ===== verification/Topic_Tree.thy ===== *)
theory Topic_Tree
  imports State_Props Theme
begin

text \<open>
  \<^verbatim>\<open>src/ui/tree.rs\<close>: the topic tree. Topic names are cut at the dots of their last path segment and
  stored in a trie; the trie is turned into the items of the tree widget. The widget's constructors
  belong to the library \<open>tui_tree_widget\<close> and are parameters; a failed \<open>expect\<close> is \<open>None\<close>.
\<close>

subsection \<open>The trie\<close>

datatype node = Node (children: "(string \<times> node) list") (node_topic: "(string \<times> Topic) option")

definition default_node :: node where
  "default_node = Node [] None"

definition SEGMENT_SEP :: char where
  "SEGMENT_SEP = CHR ''.''"

text \<open>The part of a name after its last slash: the first item of \<open>rsplit('/')\<close>.\<close>

definition short :: "string \<Rightarrow> string" where
  "short name = rev (takeWhile (\<lambda>c. c \<noteq> CHR ''/'') (rev name))"

text \<open>The walk down the segments, creating nodes on demand, and the assignment at its end.\<close>

primrec insert_at :: "string list \<Rightarrow> string \<times> Topic \<Rightarrow> node \<Rightarrow> node" where
  "insert_at [] entry n = Node (children n) (Some entry)"
| "insert_at (segment # segments) entry n =
     Node (bt_upsert segment default_node (insert_at segments entry) (children n)) (node_topic n)"

definition add_topic :: "string \<times> Topic \<Rightarrow> node \<Rightarrow> node" where
  "add_topic entry root =
     (if publish_count (snd entry) = 0 then root
      else insert_at (split_on SEGMENT_SEP (short (fst entry))) entry root)"

definition build_trie :: "AppState \<Rightarrow> node" where
  "build_trie state = fold add_topic (topics state) default_node"

text \<open>\<open>find_map\<close>: the first \<open>Some\<close> a closure returns.\<close>

fun first_some :: "'a option list \<Rightarrow> 'a option" where
  "first_some [] = None"
| "first_some (x # xs) = (case x of None \<Rightarrow> first_some xs | Some a \<Rightarrow> Some a)"

fun first_topic :: "node \<Rightarrow> string option" where
  "first_topic (Node cs own) =
     (case own of Some (name, _) \<Rightarrow> Some name
      | None \<Rightarrow> first_some (map (\<lambda>(_, c). first_topic c) cs))"

fun subtree_messages :: "node \<Rightarrow> u64" where
  "subtree_messages (Node cs own) =
     (case own of None \<Rightarrow> 0 | Some (_, t) \<Rightarrow> publish_count t) +
     sum_list (map (\<lambda>(_, c). subtree_messages c) cs)"

definition group_id :: "string \<Rightarrow> node \<Rightarrow> string" where
  "group_id segment n =
     (case first_topic n of Some name \<Rightarrow> name @ [CHR 0x01] @ segment | None \<Rightarrow> segment)"

subsection \<open>Lines\<close>

definition msgs_span :: "u64 \<Rightarrow> span" where
  "msgs_span n = (theme_count, ''['' @ show_nat (unat n) @ '' msgs]'')"

definition group_line :: "string \<Rightarrow> node \<Rightarrow> line" where
  "group_line segment n = [(theme_label, segment @ ''  ''), msgs_span (subtree_messages n)]"

definition topic_line :: "string \<Rightarrow> Topic \<Rightarrow> line" where
  "topic_line segment topic = [(theme_label, segment @ ''  ''), msgs_span (publish_count topic)]"

definition publisher_line :: "string \<Rightarrow> u64 \<Rightarrow> line" where
  "publisher_line peer n =
     [(theme_publisher, [CHR 0xE2, CHR 0x96, CHR 0xB2] @ '' pub ''), (theme_label, peer),
      (theme_count, ''  ('' @ show_nat (unat n) @ '' published)'')]"

definition consumer_line :: "string \<Rightarrow> Subscription \<Rightarrow> line" where
  "consumer_line name sub =
     [(theme_consumer, [CHR 0xE2, CHR 0x96, CHR 0xBC] @ '' sub ''), (theme_label, short name),
      (theme_count, ''  ('' @ show_nat (unat (acked sub)) @ '' consumed)'')] @
     (if live_consumers sub > 0
      then [(theme_consumer, ''  '' @ [CHR 0xE2, CHR 0x97, CHR 0x8F] @ show_nat (unat (live_consumers sub)) @ '' live'')]
      else [])"

subsection \<open>Items\<close>

text \<open>
  \<open>new_item\<close> and \<open>new_leaf\<close> are \<open>TreeItem::new\<close> and \<open>TreeItem::new_leaf\<close>.
\<close>

definition leaves_for_topic ::
  "(string \<Rightarrow> line \<Rightarrow> 'i) \<Rightarrow> string \<Rightarrow> Topic \<Rightarrow> AppState \<Rightarrow> 'i list" where
  "leaves_for_topic new_leaf name topic state =
     map (\<lambda>(peer, publisher). new_leaf (name @ [CHR 0x01] @ ''pub'' @ [CHR 0x01] @ peer)
            (publisher_line peer (published publisher)))
       (filter (\<lambda>(peer, publisher). published publisher \<noteq> 0) (publishers topic)) @
     map (\<lambda>(sub_name, sub). new_leaf (name @ [CHR 0x01] @ ''sub'' @ [CHR 0x01] @ sub_name)
            (consumer_line sub_name sub))
       (active_consumers_of state name)"

definition item_id :: "string \<Rightarrow> node \<Rightarrow> string" where
  "item_id segment n =
     (case node_topic n of Some (name, _) \<Rightarrow> ''topic'' @ [CHR 0x01] @ name
      | None \<Rightarrow> ''group'' @ [CHR 0x01] @ group_id segment n)"

fun item_for ::
  "(string \<Rightarrow> line \<Rightarrow> 'i list \<Rightarrow> 'i option) \<Rightarrow> (string \<Rightarrow> line \<Rightarrow> 'i) \<Rightarrow> AppState \<Rightarrow> string \<Rightarrow> node \<Rightarrow> 'i option" where
  "item_for new_item new_leaf state segment (Node cs own) =
     Option.bind (those (map (\<lambda>(s, c). item_for new_item new_leaf state s c) cs)) (\<lambda>kids.
       let ident = item_id segment (Node cs own)
       in case own of
            Some (name, topic) \<Rightarrow>
              new_item ident (topic_line segment topic) (kids @ leaves_for_topic new_leaf name topic state)
          | None \<Rightarrow> new_item ident (group_line segment (Node cs own)) kids)"

definition build ::
  "(string \<Rightarrow> line \<Rightarrow> 'i list \<Rightarrow> 'i option) \<Rightarrow> (string \<Rightarrow> line \<Rightarrow> 'i) \<Rightarrow> AppState \<Rightarrow> 'i list option" where
  "build new_item new_leaf state =
     those (map (\<lambda>(s, c). item_for new_item new_leaf state s c) (children (build_trie state)))"

end
