(* ===== verification/Topic_Tree_Facts.thy ===== *)
theory Topic_Tree_Facts
  imports Topic_Tree "HOL-Library.Sublist"
begin

text \<open>
  What the topic tree shows: where each topic sits, what the totals beside the groups count, and that
  the identifiers handed to the tree widget never clash.
\<close>

subsection \<open>Looking a path up in the trie\<close>

definition path_of :: "string \<Rightarrow> string list" where
  "path_of name = split_on SEGMENT_SEP (short name)"

primrec topic_path :: "string list \<Rightarrow> node \<Rightarrow> (string \<times> Topic) option" where
  "topic_path [] n = node_topic n"
| "topic_path (s # ss) n = (case bt_get (children n) s of None \<Rightarrow> None | Some c \<Rightarrow> topic_path ss c)"

primrec messages_under :: "string list \<Rightarrow> node \<Rightarrow> u64" where
  "messages_under [] n = subtree_messages n"
| "messages_under (s # ss) n = (case bt_get (children n) s of None \<Rightarrow> 0 | Some c \<Rightarrow> messages_under ss c)"

fun node_wf :: "node \<Rightarrow> bool" where
  "node_wf (Node cs own) \<longleftrightarrow> bt_wf cs \<and> (\<forall>e \<in> set cs. node_wf (snd e) \<and> first_topic (snd e) \<noteq> None)"

lemma default_node_simps [simp]:
  "children default_node = []" "node_topic default_node = None" "topic_path q default_node = None"
  "subtree_messages default_node = 0" "node_wf default_node" "messages_under q default_node = 0"
  by (cases q; simp add: default_node_def)+

lemma topic_path_insert:
  "topic_path q (insert_at p e n) = (if q = p then Some e else topic_path q n)"
proof (induction p arbitrary: q n)
  case Nil
  then show ?case by (cases q) auto
next
  case (Cons s p)
  show ?case
  proof (cases q)
    case (Cons s' q')
    with Cons.IH show ?thesis by (auto simp: bt_get_upsert split: option.split)
  qed simp
qed

lemma set_bt_insert: "set (bt_insert k v m) \<subseteq> insert (k, v) (set m)"
  by (induction m) auto

lemma bt_insert_mem: "(k, v) \<in> set (bt_insert k v m)"
  by (induction m) auto

lemma first_some_None: "first_some xs = None \<longleftrightarrow> set xs \<subseteq> {None}"
  by (induction xs) (auto split: option.splits)

lemma first_some_mem: "first_some xs = Some a \<Longrightarrow> Some a \<in> set xs"
  by (induction xs) (auto split: option.splits)

lemma insert_at_first_topic: "first_topic (insert_at p e n) \<noteq> None"
proof (induction p arbitrary: n)
  case Nil
  then show ?case by (cases e) simp
next
  case (Cons s p)
  obtain cs own where n: "n = Node cs own" by (cases n)
  let ?c = "insert_at p e (case bt_get cs s of None \<Rightarrow> default_node | Some v \<Rightarrow> v)"
  have mem: "(s, ?c) \<in> set (bt_upsert s default_node (insert_at p e) cs)"
    by (simp add: bt_upsert_def bt_insert_mem)
  have "first_topic ?c \<noteq> None" by (rule Cons.IH)
  with mem have "first_some (map (\<lambda>(_, c). first_topic c) (bt_upsert s default_node (insert_at p e) cs)) \<noteq> None"
    unfolding first_some_None by force
  then show ?case by (simp add: n split: option.split)
qed

lemma node_wf_child: "node_wf n \<Longrightarrow> bt_get (children n) s = Some c \<Longrightarrow> node_wf c"
  by (cases n) (force dest: map_of_SomeD)

lemma node_wf_entry: "node_wf n \<Longrightarrow> node_wf (case bt_get (children n) s of None \<Rightarrow> default_node | Some v \<Rightarrow> v)"
  by (auto dest: node_wf_child split: option.split)

lemma node_wf_insert: "node_wf n \<Longrightarrow> node_wf (insert_at p e n)"
proof (induction p arbitrary: n)
  case Nil
  then show ?case by (cases n) simp
next
  case (Cons s p)
  obtain cs own where n: "n = Node cs own" by (cases n)
  let ?c = "insert_at p e (case bt_get cs s of None \<Rightarrow> default_node | Some v \<Rightarrow> v)"
  have "node_wf ?c" using Cons node_wf_entry [of n s] by (simp add: n)
  moreover have "first_topic ?c \<noteq> None" by (rule insert_at_first_topic)
  moreover have "set (bt_upsert s default_node (insert_at p e) cs) \<subseteq> insert (s, ?c) (set cs)"
    unfolding bt_upsert_def by (rule set_bt_insert)
  ultimately show ?case
    using Cons.prems bt_wf_upsert [of cs s default_node "insert_at p e"]
    unfolding n by (auto simp del: split_paired_Ex)
qed

lemma subtree_messages_Node:
  "subtree_messages (Node cs own) =
     (case own of None \<Rightarrow> 0 | Some e \<Rightarrow> publish_count (snd e)) + bt_sum subtree_messages cs"
  by (cases own) (simp_all add: bt_sum_def bt_values_def comp_def case_prod_unfold)

declare subtree_messages.simps [simp del]

lemma messages_under_insert:
  "node_wf n \<Longrightarrow> topic_path p n = None \<Longrightarrow>
     messages_under q (insert_at p e n) =
       messages_under q n + (if prefix q p then publish_count (snd e) else 0)"
proof (induction p arbitrary: q n)
  case Nil
  obtain cs own where n: "n = Node cs own" by (cases n)
  with Nil show ?case by (cases q) (auto simp: subtree_messages_Node)
next
  case (Cons s p)
  obtain cs own where n: "n = Node cs own" by (cases n)
  let ?w = "case bt_get cs s of None \<Rightarrow> default_node | Some v \<Rightarrow> v"
  have w: "node_wf ?w" using Cons.prems node_wf_entry [of n s] by (simp add: n)
  have none: "topic_path p ?w = None" using Cons.prems by (auto simp: n split: option.splits)
  have IH: "messages_under q (insert_at p e ?w) =
      messages_under q ?w + (if prefix q p then publish_count (snd e) else 0)" for q
    by (rule Cons.IH [OF w none])
  show ?case
  proof (cases q)
    case Nil
    have "bt_wf cs" using Cons.prems by (simp add: n)
    with IH [of "[]"] Nil show ?thesis
      by (simp add: n subtree_messages_Node bt_sum_upsert Let_def)
  next
    case (Cons s' q')
    with IH [of q'] show ?thesis by (auto simp: n bt_get_upsert split: option.splits)
  qed
qed

subsection \<open>The trie of a state\<close>

lemma topic_path_fold:
  "topic_path q (fold add_topic es n) =
     (case filter (\<lambda>e. publish_count (snd e) \<noteq> 0 \<and> path_of (fst e) = q) es of
        [] \<Rightarrow> topic_path q n | e # es' \<Rightarrow> Some (last (e # es')))"
proof (induction es arbitrary: n)
  case (Cons e es)
  then show ?case
    by (auto simp: add_topic_def topic_path_insert path_of_def split: list.split)
qed simp

lemma node_wf_fold: "node_wf n \<Longrightarrow> node_wf (fold add_topic es n)"
  by (induction es arbitrary: n) (simp_all add: add_topic_def node_wf_insert)

lemma messages_under_fold:
  assumes "node_wf n"
    and "distinct (map (\<lambda>e. path_of (fst e)) (filter (\<lambda>e. publish_count (snd e) \<noteq> 0) es))"
    and "\<forall>e \<in> set es. publish_count (snd e) \<noteq> 0 \<longrightarrow> topic_path (path_of (fst e)) n = None"
  shows "messages_under q (fold add_topic es n) =
    messages_under q n + (\<Sum>e \<leftarrow> filter (\<lambda>e. prefix q (path_of (fst e))) es. publish_count (snd e))"
  using assms
proof (induction es arbitrary: n)
  case (Cons e es)
  show ?case
  proof (cases "publish_count (snd e) = 0")
    case True
    with Cons show ?thesis by (simp add: add_topic_def)
  next
    case False
    then have add: "add_topic e n = insert_at (path_of (fst e)) e n"
      by (simp add: add_topic_def path_of_def)
    from Cons.prems False have "\<forall>e' \<in> set es. publish_count (snd e') \<noteq> 0 \<longrightarrow>
        topic_path (path_of (fst e')) (add_topic e n) = None"
      by (fastforce simp: add topic_path_insert image_iff)
    with Cons.prems have "messages_under q (fold add_topic es (add_topic e n)) =
        messages_under q (add_topic e n) +
        (\<Sum>e \<leftarrow> filter (\<lambda>e. prefix q (path_of (fst e))) es. publish_count (snd e))"
      by (intro Cons.IH) (auto simp: add node_wf_insert split: if_splits)
    with Cons.prems False show ?thesis
      by (simp add: add messages_under_insert)
  qed
qed simp

subsection \<open>Identifiers\<close>

text \<open>
  A node at path \<open>pre\<close> of the trie of \<open>state\<close>: its topics lie below \<open>pre\<close>, their names are free of the
  separator of the identifiers, and their publishers form a map.
\<close>

definition node_ok :: "string list \<Rightarrow> node \<Rightarrow> bool" where
  "node_ok pre n \<longleftrightarrow> node_wf n \<and>
     (\<forall>q e. topic_path q n = Some e \<longrightarrow>
        path_of (fst e) = pre @ q \<and> CHR 0x01 \<notin> set (fst e) \<and> bt_wf (publishers (snd e)))"

lemma node_ok_child:
  assumes "node_ok pre n" and "(s, c) \<in> set (children n)"
  shows "node_ok (pre @ [s]) c \<and> first_topic c \<noteq> None"
proof -
  obtain cs own where n: "n = Node cs own" by (cases n)
  have wf: "node_wf n" using assms by (simp add: node_ok_def)
  then have s: "bt_get cs s = Some c" using assms by (simp add: n bt_wf_distinct)
  have "node_wf c" using node_wf_child [OF wf, of s c] s by (simp add: n)
  moreover have "path_of (fst e) = (pre @ [s]) @ q \<and> CHR 0x01 \<notin> set (fst e) \<and> bt_wf (publishers (snd e))"
    if "topic_path q c = Some e" for q e
  proof -
    have "topic_path (s # q) n = Some e" using that s by (simp add: n)
    with assms(1) have "path_of (fst e) = pre @ (s # q) \<and> CHR 0x01 \<notin> set (fst e) \<and> bt_wf (publishers (snd e))"
      unfolding node_ok_def by blast
    then show ?thesis by simp
  qed
  moreover have "first_topic c \<noteq> None" using wf assms(2) by (force simp: n)
  ultimately show ?thesis unfolding node_ok_def by blast
qed

lemma first_topic_path: "node_wf n \<Longrightarrow> first_topic n = Some name \<Longrightarrow> \<exists>q t. topic_path q n = Some (name, t)"
proof (induction n rule: first_topic.induct)
  case (1 cs own)
  show ?case
  proof (cases own)
    case None
    with "1.prems" have "first_some (map (\<lambda>(_, c). first_topic c) cs) = Some name" by simp
    then have "Some name \<in> set (map (\<lambda>(_, c). first_topic c) cs)" by (rule first_some_mem)
    then obtain s c where sc: "(s, c) \<in> set cs" "first_topic c = Some name" by auto
    moreover have "node_wf c" using "1.prems" sc by force
    ultimately obtain q t where "topic_path q c = Some (name, t)"
      using "1.IH" [OF None sc(1) refl] by blast
    moreover have "bt_get cs s = Some c" using "1.prems" sc by (simp add: bt_wf_distinct)
    ultimately have "topic_path (s # q) (Node cs own) = Some (name, t)" by simp
    then show ?thesis by blast
  next
    case (Some e)
    obtain m t where e: "e = (m, t)" by (cases e)
    with Some "1.prems" have "topic_path [] (Node cs own) = Some (name, t)" by simp
    then show ?thesis by blast
  qed
qed

text \<open>What an identifier is made of: the kind, a topic below the node, and the segment of a group.\<close>

lemma item_id_shape:
  assumes "node_ok pre c" and "first_topic c \<noteq> None"
  obtains m q where "path_of m = pre @ q" and "CHR 0x01 \<notin> set m"
    and "item_id s c = ''topic'' @ CHR 0x01 # m \<or> item_id s c = ''group'' @ CHR 0x01 # m @ CHR 0x01 # s"
proof -
  obtain m where m: "first_topic c = Some m" using assms(2) by auto
  then obtain q t where q: "topic_path q c = Some (m, t)"
    using first_topic_path assms(1) unfolding node_ok_def by blast
  with assms(1) have "path_of (fst (m, t)) = pre @ q \<and> CHR 0x01 \<notin> set (fst (m, t))"
    unfolding node_ok_def by blast
  then have "path_of m = pre @ q" "CHR 0x01 \<notin> set m" by simp_all
  moreover have "item_id s c = ''topic'' @ CHR 0x01 # m \<or> item_id s c = ''group'' @ CHR 0x01 # m @ CHR 0x01 # s"
    using m by (cases c) (auto simp: item_id_def group_id_def split: option.splits)
  ultimately show thesis by (rule that)
qed

lemma distinct_map_by_key:
  assumes "distinct (map fst xs)" and "\<And>e e'. e \<in> set xs \<Longrightarrow> e' \<in> set xs \<Longrightarrow> f e = f e' \<Longrightarrow> fst e = fst e'"
  shows "distinct (map f xs)"
proof -
  have inj: "inj_on fst (set xs)" and "distinct xs" using assms(1) by (simp_all only: distinct_map)
  have "inj_on f (set xs)"
  proof (rule inj_onI)
    fix e e' assume e: "e \<in> set xs" "e' \<in> set xs" and "f e = f e'"
    then have "fst e = fst e'" by (rule assms(2))
    then show "e = e'" using e by (rule inj_onD [OF inj])
  qed
  with \<open>distinct xs\<close> show ?thesis by (simp only: distinct_map)
qed

lemma children_ids_distinct:
  assumes "node_ok pre n"
  shows "distinct (map (\<lambda>e. item_id (fst e) (snd e)) (children n))"
proof (rule distinct_map_by_key)
  show "distinct (map fst (children n))"
    using assms by (cases n) (simp add: node_ok_def bt_wf_distinct)
next
  fix e e' assume mem: "e \<in> set (children n)" "e' \<in> set (children n)"
    and eq: "item_id (fst e) (snd e) = item_id (fst e') (snd e')"
  have ok: "node_ok (pre @ [fst e]) (snd e)" "first_topic (snd e) \<noteq> None"
    "node_ok (pre @ [fst e']) (snd e')" "first_topic (snd e') \<noteq> None"
    using node_ok_child [OF assms, of "fst e" "snd e"] node_ok_child [OF assms, of "fst e'" "snd e'"] mem by auto
  obtain m q where m: "path_of m = (pre @ [fst e]) @ q" "CHR 0x01 \<notin> set m"
    "item_id (fst e) (snd e) = ''topic'' @ CHR 0x01 # m \<or> item_id (fst e) (snd e) = ''group'' @ CHR 0x01 # m @ CHR 0x01 # fst e"
    using item_id_shape [OF ok(1,2)] by metis
  obtain m' q' where m': "path_of m' = (pre @ [fst e']) @ q'" "CHR 0x01 \<notin> set m'"
    "item_id (fst e') (snd e') = ''topic'' @ CHR 0x01 # m' \<or> item_id (fst e') (snd e') = ''group'' @ CHR 0x01 # m' @ CHR 0x01 # fst e'"
    using item_id_shape [OF ok(3,4)] by metis
  from m m' eq have "m = m'"
    by (auto dest: append_sep_eqD)
  with m(1) m'(1) show "fst e = fst e'" by simp
qed

definition leaf_ids :: "string \<Rightarrow> Topic \<Rightarrow> AppState \<Rightarrow> string list" where
  "leaf_ids name topic state =
     map (\<lambda>e. name @ CHR 0x01 # ''pub'' @ CHR 0x01 # fst e)
       (filter (\<lambda>(peer, publisher). published publisher \<noteq> 0) (publishers topic)) @
     map (\<lambda>e. name @ CHR 0x01 # ''sub'' @ CHR 0x01 # fst e) (active_consumers_of state name)"

lemma distinct_fst_filter: "distinct (map fst xs) \<Longrightarrow> distinct (map fst (filter P xs))"
  by (rule distinct_map_filter)

lemma leaf_ids_distinct:
  assumes "bt_wf (publishers topic)" and "bt_wf (subscriptions state)"
  shows "distinct (leaf_ids name topic state)"
proof -
  have keyed: "distinct (map (\<lambda>e. name @ CHR 0x01 # kind @ CHR 0x01 # fst e) xs)" if "distinct (map fst xs)"
    for kind and xs :: "(string \<times> 'c) list"
    using that by (rule distinct_map_by_key) simp
  show ?thesis
    unfolding leaf_ids_def distinct_append active_consumers_of_def
    by (intro conjI keyed distinct_fst_filter bt_wf_distinct assms) auto
qed

lemma leaf_ids_shape:
  "i \<in> set (leaf_ids name topic state) \<Longrightarrow>
     \<exists>x. i = name @ CHR 0x01 # ''pub'' @ CHR 0x01 # x \<or> i = name @ CHR 0x01 # ''sub'' @ CHR 0x01 # x"
  by (auto simp: leaf_ids_def)

lemma path_of_kinds [simp]:
  "path_of ''group'' = [''group'']" "path_of ''pub'' = [''pub'']" "path_of ''sub'' = [''sub'']"
  by (simp_all add: path_of_def short_def SEGMENT_SEP_def)

text \<open>A leaf of a topic never has the identifier of a child node of the same topic.\<close>

lemma leaf_not_child:
  assumes "node_ok pre n" and "node_topic n = Some (name, topic)" and "e \<in> set (children n)"
  shows "item_id (fst e) (snd e) \<notin> set (leaf_ids name topic state)"
proof
  assume "item_id (fst e) (snd e) \<in> set (leaf_ids name topic state)"
  then obtain kind x where leaf: "item_id (fst e) (snd e) = name @ CHR 0x01 # kind @ CHR 0x01 # x"
    and kind: "kind = ''pub'' \<or> kind = ''sub''"
    using leaf_ids_shape by metis
  have "topic_path [] n = Some (name, topic)" using assms(2) by simp
  with assms(1) have "path_of (fst (name, topic)) = pre @ [] \<and> CHR 0x01 \<notin> set (fst (name, topic))"
    unfolding node_ok_def by blast
  then have name: "path_of name = pre" "CHR 0x01 \<notin> set name" by simp_all
  have ok: "node_ok (pre @ [fst e]) (snd e)" "first_topic (snd e) \<noteq> None"
    using node_ok_child [OF assms(1), of "fst e" "snd e"] assms(3) by auto
  obtain m q where m: "path_of m = (pre @ [fst e]) @ q" "CHR 0x01 \<notin> set m"
    "item_id (fst e) (snd e) = ''topic'' @ CHR 0x01 # m \<or> item_id (fst e) (snd e) = ''group'' @ CHR 0x01 # m @ CHR 0x01 # fst e"
    using item_id_shape [OF ok] by metis
  from m(3) show False
  proof
    assume "item_id (fst e) (snd e) = ''topic'' @ CHR 0x01 # m"
    with leaf have "''topic'' @ CHR 0x01 # m = name @ CHR 0x01 # (kind @ CHR 0x01 # x)" by simp
    from append_sep_eqD [OF this _ name(2)] have "m = kind @ CHR 0x01 # x" by simp
    with m(2) show False by simp
  next
    assume "item_id (fst e) (snd e) = ''group'' @ CHR 0x01 # m @ CHR 0x01 # fst e"
    with leaf have "''group'' @ CHR 0x01 # (m @ CHR 0x01 # fst e) = name @ CHR 0x01 # (kind @ CHR 0x01 # x)" by simp
    from append_sep_eqD [OF this _ name(2)]
    have eq: "name = ''group''" "m @ CHR 0x01 # fst e = kind @ CHR 0x01 # x" by auto
    have "CHR 0x01 \<notin> set kind" using kind by auto
    from append_sep_eqD [OF eq(2) m(2) this] have "m = kind" by simp
    with kind m(1) name(1) eq(1) show False by auto
  qed
qed

subsection \<open>The widget's contract\<close>

text \<open>
  What the program relies on of \<open>TreeItem\<close>: an item is constructed exactly when its children's
  identifiers are distinct, and it keeps the identifier it is given.
\<close>

locale tree_widget =
  fixes new_item :: "string \<Rightarrow> line \<Rightarrow> 'i list \<Rightarrow> 'i option"
    and new_leaf :: "string \<Rightarrow> line \<Rightarrow> 'i"
    and ident :: "'i \<Rightarrow> string"
  assumes new_distinct: "distinct (map ident kids) \<Longrightarrow> \<exists>it. new_item i text kids = Some it \<and> ident it = i"
    and new_duplicate: "\<not> distinct (map ident kids) \<Longrightarrow> new_item i text kids = None"
    and leaf_ident: "ident (new_leaf i text) = i"
begin

lemma idents_leaves: "map ident (leaves_for_topic new_leaf name topic state) = leaf_ids name topic state"
  by (simp add: leaves_for_topic_def leaf_ids_def leaf_ident comp_def case_prod_unfold)

lemma those_idents:
  assumes "\<And>e. e \<in> set xs \<Longrightarrow> \<exists>it. f e = Some it \<and> ident it = g e"
  shows "\<exists>its. those (map f xs) = Some its \<and> map ident its = map g xs"
  using assms
proof (induction xs)
  case (Cons e xs)
  then obtain it its where "f e = Some it" "ident it = g e" "those (map f xs) = Some its" "map ident its = map g xs"
    by (metis list.set_intros)
  then show ?case by simp
qed simp

lemma item_for_total:
  assumes "node_ok pre n" and "bt_wf (subscriptions state)"
  shows "\<exists>it. item_for new_item new_leaf state segment n = Some it \<and> ident it = item_id segment n"
  using assms(1)
proof (induction n arbitrary: pre segment)
  case (Node cs own)
  let ?n = "Node cs own"
  have kid: "\<exists>it. (case e of (s, c) \<Rightarrow> item_for new_item new_leaf state s c) = Some it \<and> ident it = item_id (fst e) (snd e)"
    if "e \<in> set cs" for e
  proof -
    obtain s c where e: "e = (s, c)" by (cases e)
    have "node_ok (pre @ [s]) c" using node_ok_child [OF Node.prems, of s c] that e by simp
    then show ?thesis using Node.IH [of "(s, c)" c "pre @ [s]" s] that e by simp
  qed
  obtain kids where kids: "those (map (\<lambda>(s, c). item_for new_item new_leaf state s c) cs) = Some kids"
    "map ident kids = map (\<lambda>e. item_id (fst e) (snd e)) cs"
    using those_idents [of cs "\<lambda>(s, c). item_for new_item new_leaf state s c"
        "\<lambda>e. item_id (fst e) (snd e)", OF kid] by blast
  have distinct: "distinct (map ident kids)"
    using children_ids_distinct [OF Node.prems] kids(2) by simp
  show ?case
  proof (cases own)
    case None
    with kids(1) distinct show ?thesis using new_distinct by (auto simp: Let_def)
  next
    case (Some own')
    obtain name topic where own: "own = Some (name, topic)" using Some by (cases own') auto
    then have "topic_path [] ?n = Some (name, topic)" by simp
    with Node.prems have "bt_wf (publishers (snd (name, topic)))" unfolding node_ok_def by blast
    then have "distinct (leaf_ids name topic state)" using assms(2) by (simp add: leaf_ids_distinct)
    moreover have "set (map ident kids) \<inter> set (leaf_ids name topic state) = {}"
      using leaf_not_child [OF Node.prems, of name topic _ state] own kids(2) by auto
    ultimately have "distinct (map ident (kids @ leaves_for_topic new_leaf name topic state))"
      using distinct by (simp add: idents_leaves)
    with kids(1) own show ?thesis using new_distinct by (auto simp: Let_def simp del: map_append)
  qed
qed

end

subsection \<open>A widget\<close>

text \<open>The least such widget: an item is its identifier, its line and its children.\<close>

datatype tree_item = TreeItem (tree_item_id: string) (tree_item_line: line) (tree_item_children: "tree_item list")

definition tree_item_new :: "string \<Rightarrow> line \<Rightarrow> tree_item list \<Rightarrow> tree_item option" where
  "tree_item_new i text kids = (if distinct (map tree_item_id kids) then Some (TreeItem i text kids) else None)"

definition tree_item_leaf :: "string \<Rightarrow> line \<Rightarrow> tree_item" where
  "tree_item_leaf i text = TreeItem i text []"

interpretation widget: tree_widget tree_item_new tree_item_leaf tree_item_id
  by unfold_locales (simp_all add: tree_item_new_def tree_item_leaf_def)

subsection \<open>Properties\<close>

lemma build_trie_ok:
  assumes "maps_ok state" and "\<forall>e \<in> set (topics state). CHR 0x01 \<notin> set (fst e)"
  shows "node_ok [] (build_trie state)"
  unfolding node_ok_def
proof (intro conjI allI impI)
  show "node_wf (build_trie state)" by (simp add: build_trie_def node_wf_fold)
next
  fix q e assume "topic_path q (build_trie state) = Some e"
  then have "e \<in> set (filter (\<lambda>e. publish_count (snd e) \<noteq> 0 \<and> path_of (fst e) = q) (topics state))"
    by (auto simp: build_trie_def topic_path_fold simp del: set_filter split: list.splits intro: last_in_set)
  then have e: "e \<in> set (topics state)" "path_of (fst e) = q" by auto
  then show "path_of (fst e) = [] @ q" by simp
  show "CHR 0x01 \<notin> set (fst e)" using assms(2) e by blast
  show "bt_wf (publishers (snd e))"
    using assms(1) e by (cases e) (auto simp: maps_ok_def bt_wf_distinct)
qed

text \<open>
  Claim C21. The tree shows the topics with messages, each at the path its short name spells: at every
  path of the trie sits the last topic, in the order of full names, that has messages and whose last
  path segment, cut at its dots, is that path; where two topics spell the same path the earlier one
  is not shown.
\<close>

theorem tree_shows_topics:
  "topic_path path (build_trie state) =
     (case filter (\<lambda>e. publish_count (snd e) \<noteq> 0 \<and> split_on SEGMENT_SEP (short (fst e)) = path) (topics state) of
        [] \<Rightarrow> None | e # es \<Rightarrow> Some (last (e # es)))"
  by (simp add: build_trie_def topic_path_fold path_of_def split: list.split)

text \<open>
  Claim C22. The number beside a group is the traffic below it: if no two topics with messages spell
  the same path, the total drawn for the node at any path is the sum of the publish counts of all
  topics whose path starts with it; at the root it is the total of all topics.
\<close>

theorem tree_totals:
  assumes "distinct (map (\<lambda>e. path_of (fst e)) (filter (\<lambda>e. publish_count (snd e) \<noteq> 0) (topics state)))"
  shows "messages_under path (build_trie state) =
    (\<Sum>e \<leftarrow> filter (\<lambda>e. prefix path (path_of (fst e))) (topics state). publish_count (snd e))"
  using messages_under_fold [of default_node "topics state" path] assms by (simp add: build_trie_def)

text \<open>
  Every item of the tree is constructed, whatever the subscriptions and peers are called, as long as
  the topic names are free of the separator.
\<close>

lemma build_total:
  assumes "tree_widget new_item new_leaf ident"
    and "maps_ok state" and "\<forall>e \<in> set (topics state). CHR 0x01 \<notin> set (fst e)"
  shows "\<exists>items. build new_item new_leaf state = Some items \<and> distinct (map ident items) \<and>
    map ident items = map (\<lambda>e. item_id (fst e) (snd e)) (children (build_trie state))"
proof -
  have root: "node_ok [] (build_trie state)" by (rule build_trie_ok [OF assms(2,3)])
  have "\<exists>it. (case e of (s, c) \<Rightarrow> item_for new_item new_leaf state s c) = Some it \<and> ident it = item_id (fst e) (snd e)"
    if "e \<in> set (children (build_trie state))" for e
    using tree_widget.item_for_total [OF assms(1), of "[fst e]" "snd e" state "fst e"]
      node_ok_child [OF root, of "fst e" "snd e"] that assms(2) by (auto simp: maps_ok_def case_prod_unfold)
  from tree_widget.those_idents [OF assms(1), of "children (build_trie state)" "\<lambda>(s, c). item_for new_item new_leaf state s c"
      "\<lambda>e. item_id (fst e) (snd e)", OF this]
  show ?thesis using children_ids_distinct [OF root] by (auto simp: build_def)
qed

subsection \<open>Concrete states\<close>

definition published_topic :: "u64 \<Rightarrow> Topic" where
  "published_topic n = \<lparr>topic_exists = True, publish_count = n, publishers = []\<rparr>"

text \<open>Two projects with a topic of the same name.\<close>

definition two_projects :: AppState where
  "two_projects = default_state\<lparr>topics :=
     [(''projects/a/topics/orders'', published_topic 5), (''projects/b/topics/orders'', published_topic 2)]\<rparr>"

text \<open>A topic called \<open>topic\<close>, and one whose name imitates the identifier of one of its leaves.\<close>

definition hostile_state :: AppState where
  "hostile_state = default_state\<lparr>
     topics := [(''sub'' @ CHR 0x01 # ''x/topic.s'', published_topic 1), (''topic'', published_topic 1)],
     subscriptions := [(''x/topic.s'',
       \<lparr>sub_exists = True, sub_topic = Some ''topic'', delivered = 1, acked = 1, live_consumers = 0\<rparr>)]\<rparr>"



theorem tree_totals_witness:
  "messages_under [''acme''] (build_trie (default_state\<lparr>topics := [(''acme.a'', published_topic 3), (''acme.b'', published_topic 4)]\<rparr>)) = 7"
  using tree_totals [of "default_state\<lparr>topics := [(''acme.a'', published_topic 3), (''acme.b'', published_topic 4)]\<rparr>" "[''acme'']"]
  by (simp add: path_of_def short_def SEGMENT_SEP_def published_topic_def)

lemma hostile_trie:
  "build_trie hostile_state = Node [(''topic'',
     Node [(''s'', Node [] (Some (''sub'' @ CHR 0x01 # ''x/topic.s'', published_topic 1)))]
       (Some (''topic'', published_topic 1)))] None"
  by (simp add: build_trie_def hostile_state_def add_topic_def published_topic_def short_def SEGMENT_SEP_def
      bt_upsert_def default_node_def)

lemma hostile_consumers: "map fst (active_consumers_of hostile_state ''topic'') = [''x/topic.s'']"
  by (simp add: active_consumers_of_def hostile_state_def)

text \<open>
  Claim C39. The identifiers are not unique by construction alone: a topic name that contains the
  separator can imitate the identifier of another topic's leaf, and the tree then panics.
\<close>

theorem hostile_name_panics:
  assumes "tree_widget new_item new_leaf ident"
  shows "build new_item new_leaf hostile_state = None"
proof -
  let ?hostile = "''sub'' @ CHR 0x01 # ''x/topic.s''"
  let ?child = "Node [] (Some (?hostile, published_topic 1))"
  obtain kid where kid: "item_for new_item new_leaf hostile_state ''s'' ?child = Some kid"
    "ident kid = ''topic'' @ CHR 0x01 # ?hostile"
  proof -
    have "active_consumers_of hostile_state ?hostile = []"
      by (simp add: active_consumers_of_def hostile_state_def)
    then have "leaves_for_topic new_leaf ?hostile (published_topic 1) hostile_state = []"
      by (simp add: leaves_for_topic_def published_topic_def)
    then have "item_for new_item new_leaf hostile_state ''s'' ?child =
        new_item (''topic'' @ CHR 0x01 # ?hostile) (topic_line ''s'' (published_topic 1)) []"
      by (simp add: item_id_def)
    then show thesis
      using tree_widget.new_distinct [OF assms, of "[]" "''topic'' @ CHR 0x01 # ?hostile"] that by auto
  qed
  have "map ident (leaves_for_topic new_leaf ''topic'' (published_topic 1) hostile_state) =
      [''topic'' @ CHR 0x01 # ''sub'' @ CHR 0x01 # ''x/topic.s'']"
    unfolding tree_widget.idents_leaves [OF assms] leaf_ids_def
    by (simp add: published_topic_def active_consumers_of_def hostile_state_def)
  with kid(2) have "\<not> distinct (map ident ([kid] @ leaves_for_topic new_leaf ''topic'' (published_topic 1) hostile_state))"
    by (auto dest!: arg_cong [of _ _ set])
  from tree_widget.new_duplicate [OF assms this] kid(1)
  have "item_for new_item new_leaf hostile_state ''topic'' (Node [(''s'', ?child)] (Some (''topic'', published_topic 1))) = None"
    by (simp add: Let_def del: item_for.simps add: item_for.simps [of _ _ _ _ "[(''s'', _)]"])
  then show ?thesis unfolding build_def hostile_trie by (simp del: item_for.simps)
qed

theorem hostile_name_panics_witness:
  "build tree_item_new tree_item_leaf hostile_state = None"
  by (rule hostile_name_panics [OF widget.tree_widget_axioms])

end
