(* ===== verification/Widgets.thy ===== *)
theory Widgets
  imports State_Props Theme
begin

text \<open>
  \<^verbatim>\<open>src/ui/widgets.rs\<close>: the title bar, the connection indicator, the statistics panel and the status bar.
  A paragraph is its lines with what the program sets on it; drawing it is the terminal library's.
\<close>

datatype alignment = LeftAligned | CenterAligned | RightAligned

record Paragraph =
  par_lines :: "line list"
  par_style :: style
  par_alignment :: alignment
  par_block :: "(span \<times> style) option"

definition title_bar :: "string \<Rightarrow> Paragraph" where
  "title_bar header =
     \<lparr>par_lines = [[(theme_bar, '' '' @ [CHR 0xE2, CHR 0x89, CHR 0xA1] @ '' ''), (theme_bar, header)]],
      par_style = theme_bar, par_alignment = LeftAligned, par_block = None\<rparr>"

definition connection_status :: "bool \<Rightarrow> Paragraph" where
  "connection_status connected =
     (let (glyph, content, sty) =
        (if connected then ([CHR 0xE2, CHR 0x97, CHR 0x8F] @ '' '', ''connected'', theme_status_ok)
         else ([CHR 0xE2, CHR 0x9F, CHR 0xB3] @ '' '', ''connecting'' @ [CHR 0xE2, CHR 0x80, CHR 0xA6], theme_status_warn))
      in \<lparr>par_lines = [[(sty, glyph), (sty, content), (theme_bar, '' '')]], par_style = theme_bar,
          par_alignment = RightAligned, par_block = None\<rparr>)"

definition stat_line :: "string \<Rightarrow> string \<Rightarrow> nat \<Rightarrow> line" where
  "stat_line label val inner =
     (let used = chars_count label + chars_count val;
          gap = max (inner - used) 1
      in [(theme_label, label), (theme_base, spaces gap), (theme_count, val)])"

definition buffer_free :: "AppState \<Rightarrow> string" where
  "buffer_free state =
     (let used = length (recent_messages state); cap = recent_buffer_capacity state
      in if cap = 0 then show_nat used else show_nat (cap - used) @ '' / '' @ show_nat cap)"

definition statistics :: "AppState \<Rightarrow> instant \<Rightarrow> u16 \<Rightarrow> Paragraph" where
  "statistics state now width =
     (let total_published = bt_sum publish_count (topics state);
          total_consumed = bt_sum acked (subscriptions state);
          inner = unat (saturating_sub width 2);
          lines = [stat_line ''Topics'' (show_nat (topic_count state)) inner,
                   stat_line ''Publishers (live)'' (show_nat (connected_publishers state now)) inner,
                   stat_line ''Consumers (live)'' (show_nat (unat (connected_consumers state))) inner,
                   stat_line ''Messages published'' (show_nat (unat total_published)) inner,
                   stat_line ''Messages consumed'' (show_nat (unat total_consumed)) inner,
                   stat_line ''Buffer free'' (buffer_free state) inner]
      in \<lparr>par_lines = filter (\<lambda>line. line \<noteq> []) lines, par_style = theme_base, par_alignment = LeftAligned,
          par_block = Some ((theme_title, '' Statistics ''), theme_border)\<rparr>)"

definition status_bar :: "(string \<times> string) list \<Rightarrow> Paragraph" where
  "status_bar hints =
     \<lparr>par_lines = [concat (map (\<lambda>(key, desc). [(theme_hotkey, '' '' @ key @ '' ''), (theme_bar, desc @ '' '')]) hints)],
      par_style = theme_bar, par_alignment = LeftAligned, par_block = None\<rparr>"

definition empty_placeholder :: Paragraph where
  "empty_placeholder =
     \<lparr>par_lines = [[(theme_label, ''No topics with messages yet.'')],
        [(theme_base, ''Publish through the monitor's proxy and traffic will appear here.'')]],
      par_style = theme_base, par_alignment = CenterAligned, par_block = None\<rparr>"

subsection \<open>Facts\<close>

lemma stat_line_nonempty [simp]: "stat_line label val inner \<noteq> []"
  by (simp add: stat_line_def Let_def)

lemma statistics_lines:
  "par_lines (statistics state now width) =
     (let inner = unat (saturating_sub width 2)
      in [stat_line ''Topics'' (show_nat (topic_count state)) inner,
          stat_line ''Publishers (live)'' (show_nat (connected_publishers state now)) inner,
          stat_line ''Consumers (live)'' (show_nat (unat (connected_consumers state))) inner,
          stat_line ''Messages published'' (show_nat (unat (bt_sum publish_count (topics state)))) inner,
          stat_line ''Messages consumed'' (show_nat (unat (bt_sum acked (subscriptions state)))) inner,
          stat_line ''Buffer free'' (buffer_free state) inner])"
  by (simp add: statistics_def Let_def)

text \<open>
  The statistics are flush right: a row is as wide as the panel's inner width, and wider only
  when the label, one space and the value do not fit, which are then all still there.
\<close>

theorem stat_line_width:
  "chars_count (line_text (stat_line label val inner)) = max inner (chars_count label + 1 + chars_count val) \<and>
   line_text (stat_line label val inner) =
     label @ spaces (max (inner - (chars_count label + chars_count val)) 1) @ val"
  by (simp add: stat_line_def line_text_def Let_def)

text \<open>
  The panel shows what was observed: after any run of observations, within any buffer, the
  "Messages published" row shows the number of messages observed and the "Buffer free" row the
  capacity the buffer still has.
\<close>

theorem statistics_show_observed:
  fixes bursts :: "timed_obs list list"
  shows "let state = fold (apply_burst (Suc cap)) bursts (start_state (Suc cap));
      observed = sum_list (map (message_count \<circ> fst) (concat bursts));
      inner = unat (saturating_sub width 2)
    in par_lines (statistics state now width) ! 3 =
         stat_line ''Messages published'' (show_nat (unat (of_nat observed :: u64))) inner \<and>
       par_lines (statistics state now width) ! 5 =
         stat_line ''Buffer free'' (show_nat (Suc cap - observed) @ '' / '' @ show_nat (Suc cap)) inner"
proof -
  let ?cap = "Suc cap"
  let ?st = "fold (apply_burst ?cap) bursts (start_state ?cap)"
  let ?es = "concat bursts"
  let ?all = "fold_obs ?es (start_state ?cap)"
  let ?n = "sum_list (map (message_count \<circ> fst) ?es)"
  have st: "?st = trim_recent ?cap ?all" if "bursts \<noteq> []"
    using that by (simp add: fold_apply_burst)
  have topics: "topics ?st = topics ?all" and capacity: "recent_buffer_capacity ?st = ?cap"
    using st by (cases "bursts = []"; simp add: trim_recent_def start_state_def)+
  have "bt_sum publish_count (topics ?all) = next_seq ?all"
    using fold_obs_ok [of ?es ?cap] by (simp add: state_ok_def)
  moreover have "next_seq ?all = of_nat ?n"
    by (simp add: next_seq_fold start_state_def default_state_def)
  ultimately have total: "bt_sum publish_count (topics ?st) = of_nat ?n"
    by (simp only: topics)
  have recent: "length (recent_messages (fold_obs es st)) = length (recent_messages st) + sum_list (map (message_count \<circ> fst) es)" for es st
    by (induction es arbitrary: st) (simp_all add: apply_timed_recent)
  have "length (recent_messages ?st) = min ?cap ?n"
  proof (cases "bursts = []")
    case False
    have "length (recent_messages (trim_recent ?cap ?all)) = min ?cap (length (recent_messages ?all))"
      by (simp add: trim_recent_def pop_while_over_drop)
    moreover have "length (recent_messages ?all) = ?n"
      using recent [of ?es "start_state ?cap"] by (simp add: start_state_def default_state_def)
    ultimately show ?thesis by (simp only: st [OF False])
  qed (simp add: start_state_def default_state_def)
  then have free: "buffer_free ?st = show_nat (?cap - ?n) @ '' / '' @ show_nat ?cap"
    by (simp add: buffer_free_def capacity min_def Let_def)
  show ?thesis
    unfolding Let_def statistics_lines by (simp add: total free numeral_eq_Suc)
qed

end
