(* ===== verification/Remote_View.thy ===== *)
theory Remote_View
  imports Client Cli Topic_Tree_Facts Widgets
begin

text \<open>
  What a remote interface shows, compared with the monitor's own state: the trip over the wire changes
  only instants (\<open>map_instants\<close>) and the sequence counter, and nothing the tree, the statistics or the
  message list shows depends on either, ages and recency apart.
\<close>

subsection \<open>The tree does not read instants\<close>

definition retimed :: "(instant \<Rightarrow> instant) \<Rightarrow> Topic \<Rightarrow> Topic" where
  "retimed f t = t\<lparr>publishers := bt_map (\<lambda>_ p. p\<lparr>last_seen := f (last_seen p)\<rparr>) (publishers t)\<rparr>"

fun retime_node :: "(instant \<Rightarrow> instant) \<Rightarrow> node \<Rightarrow> node" where
  "retime_node f (Node cs own) =
     Node (map (\<lambda>(s, c). (s, retime_node f c)) cs) (map_option (\<lambda>(n, t). (n, retimed f t)) own)"

lemma retimed_frame [simp]:
  "publish_count (retimed f t) = publish_count t" "topic_exists (retimed f t) = topic_exists t"
  by (simp_all add: retimed_def)

lemma bt_map_insert: "bt_map (\<lambda>_. h) (bt_insert k v m) = bt_insert k (h v) (bt_map (\<lambda>_. h) m)"
  by (induction m) auto

lemma bt_map_upsert:
  assumes "\<And>v. h (g v) = g' (h v)"
  shows "bt_map (\<lambda>_. h) (bt_upsert k d g m) = bt_upsert k (h d) g' (bt_map (\<lambda>_. h) m)"
  by (simp add: bt_upsert_def bt_map_insert bt_get_map assms split: option.split)

lemma retime_children: "map (\<lambda>(s, c). (s, retime_node f c)) cs = bt_map (\<lambda>_. retime_node f) cs"
  by (simp add: bt_map_def)

lemma retime_insert_at:
  "retime_node f (insert_at segs (n, t) root) = insert_at segs (n, retimed f t) (retime_node f root)"
proof (induction segs arbitrary: root)
  case Nil
  show ?case by (cases root) simp
next
  case (Cons seg segs)
  have "bt_map (\<lambda>_. retime_node f) (bt_upsert seg d (insert_at segs (n, t)) cs) =
      bt_upsert seg (retime_node f d) (insert_at segs (n, retimed f t)) (bt_map (\<lambda>_. retime_node f) cs)" for d cs
    by (rule bt_map_upsert) (rule Cons.IH)
  then show ?case by (cases root) (simp add: retime_children default_node_def)
qed

lemma retime_trie:
  "fold add_topic (bt_map (\<lambda>_. retimed f) ts) (retime_node f root) = retime_node f (fold add_topic ts root)"
proof (induction ts arbitrary: root)
  case (Cons e ts)
  have "add_topic (fst e, retimed f (snd e)) (retime_node f root) = retime_node f (add_topic e root)"
    by (cases e) (simp add: add_topic_def retime_insert_at)
  then show ?case using Cons.IH by simp
qed simp

lemma retime_first_topic: "first_topic (retime_node f n) = first_topic n"
proof (induction n rule: first_topic.induct)
  case (1 cs own)
  then have "map (\<lambda>(_, c). first_topic c) (map (\<lambda>(s, c). (s, retime_node f c)) cs) =
      map (\<lambda>(_, c). first_topic c) cs" if "own = None"
    using that by auto
  then show ?case
    by (cases own) (simp_all only: retime_node.simps first_topic.simps option.case option.map prod.case case_prod_unfold fst_conv)
qed

lemma retime_messages: "subtree_messages (retime_node f n) = subtree_messages n"
proof (induction n rule: subtree_messages.induct)
  case (1 cs own)
  then have "map (\<lambda>(_, c). subtree_messages c) (map (\<lambda>(s, c). (s, retime_node f c)) cs) =
      map (\<lambda>(_, c). subtree_messages c) cs"
    by auto
  then have kids: "sum_list (map (\<lambda>(_, c). subtree_messages c) (map (\<lambda>(s, c). (s, retime_node f c)) cs)) =
      sum_list (map (\<lambda>(_, c). subtree_messages c) cs)" by (rule arg_cong)
  show ?case
    unfolding retime_node.simps subtree_messages.simps kids by (simp split: option.split)
qed

lemma retime_topic: "node_topic (retime_node f n) = map_option (\<lambda>(n, t). (n, retimed f t)) (node_topic n)"
  by (cases n) simp

lemma retime_leaves:
  assumes "subscriptions st' = subscriptions st"
  shows "leaves_for_topic new_leaf n (retimed f t) st' = leaves_for_topic new_leaf n t st"
proof -
  have "map (\<lambda>(peer, publisher). g peer (published publisher))
        (filter (\<lambda>(peer, publisher). published publisher \<noteq> 0) (bt_map (\<lambda>_ p. p\<lparr>last_seen := f (last_seen p)\<rparr>) ps)) =
      map (\<lambda>(peer, publisher). g peer (published publisher))
        (filter (\<lambda>(peer, publisher). published publisher \<noteq> 0) ps)" for g :: "string \<Rightarrow> u64 \<Rightarrow> 'a" and ps
    by (induction ps) auto
  with assms show ?thesis
    by (simp add: leaves_for_topic_def retimed_def active_consumers_of_def)
qed

lemma retime_item:
  assumes "subscriptions st' = subscriptions st"
  shows "item_for new_item new_leaf st' s (retime_node f n) = item_for new_item new_leaf st s n"
  using assms
proof (induction new_item new_leaf st s n rule: item_for.induct)
  case (1 new_item new_leaf st s cs own)
  then have kids: "map (\<lambda>(s, c). item_for new_item new_leaf st' s c) (map (\<lambda>(s, c). (s, retime_node f c)) cs) =
      map (\<lambda>(s, c). item_for new_item new_leaf st s c) cs"
    by auto
  have whole: "Node (map (\<lambda>(s, c). (s, retime_node f c)) cs) (map_option (\<lambda>(n, t). (n, retimed f t)) own) =
      retime_node f (Node cs own)" by simp
  have ident: "item_id s (retime_node f (Node cs own)) = item_id s (Node cs own)"
    unfolding item_id_def group_id_def retime_first_topic retime_topic by (cases own) auto
  have line: "group_line s (retime_node f (Node cs own)) = group_line s (Node cs own)"
    by (simp only: group_line_def retime_messages)
  show ?case
    unfolding retime_node.simps item_for.simps kids unfolding whole ident line
    by (cases own) (simp_all add: topic_line_def retime_leaves [OF 1(2)] case_prod_unfold)
qed

lemma build_retimed:
  "build new_item new_leaf ((map_instants f st)\<lparr>next_seq := q\<rparr>) = build new_item new_leaf st"
proof -
  let ?st = "(map_instants f st)\<lparr>next_seq := q\<rparr>"
  have trie: "build_trie ?st = retime_node f (build_trie st)"
    using retime_trie [of f "topics st" default_node]
    by (simp add: build_trie_def map_instants_def flip: retimed_def) (simp add: default_node_def)
  have subs: "subscriptions ?st = subscriptions st" by (simp add: map_instants_def)
  have "children (retime_node f n) = bt_map (\<lambda>_. retime_node f) (children n)" for n
    by (cases n) (simp add: retime_children)
  then show ?thesis
    by (simp add: build_def trie bt_map_def retime_item [OF subs] comp_def case_prod_unfold)
qed

subsection \<open>Nor do the figures and the message list\<close>

lemma topic_count_retimed: "topic_count ((map_instants f st)\<lparr>next_seq := q\<rparr>) = topic_count st"
proof -
  have "length (filter topic_exists (bt_values (bt_map (\<lambda>_ t. t\<lparr>publishers := g t\<rparr>) m))) =
      length (filter topic_exists (bt_values m))" for g and m :: "(string, Topic) btree_map"
    by (induction m) auto
  then show ?thesis by (simp add: topic_count_def map_instants_def)
qed

lemma buffer_free_retimed: "buffer_free ((map_instants f st)\<lparr>next_seq := q\<rparr>) = buffer_free st"
  by (simp add: buffer_free_def map_instants_def)

lemma published_retimed:
  "bt_sum publish_count (topics (map_instants f st)) = bt_sum publish_count (topics st)"
  by (simp add: map_instants_def bt_sum_map)

lemma subscriptions_retimed [simp]: "subscriptions ((map_instants f st)\<lparr>next_seq := q\<rparr>) = subscriptions st"
  by (simp add: map_instants_def)

lemma statistics_retimed:
  defines "remote \<equiv> \<lambda>f st. (map_instants f st)\<lparr>next_seq := 0\<rparr>"
  shows "par_lines (statistics (remote f st) later width) = (par_lines (statistics st now width))
    [1 := stat_line ''Publishers (live)'' (show_nat (connected_publishers (remote f st) later)) (unat (saturating_sub width 2))]"
  unfolding remote_def statistics_lines Let_def
  by (simp add: topic_count_retimed buffer_free_retimed published_retimed connected_consumers_def)

text \<open>What the message list shows of a message, its age apart.\<close>

definition shown_message :: "RecentMessage \<Rightarrow> string \<times> bytes \<times> (string \<times> string) list \<times> nat \<times> bool" where
  "shown_message m = (rm_topic m, rm_data m, rm_attributes m, rm_original_len m, rm_truncated m)"

lemma messages_retimed:
  "map shown_message (recent_messages (map_instants f st)) = map shown_message (recent_messages st)"
  by (simp add: map_instants_def shown_message_def)

subsection \<open>What the link can have received\<close>

lemma received_from_events:
  "set (received (fold (link_step lo) es l)) \<subseteq> set (received l) \<union> {(s, t). SnapshotArrived s t \<in> set es}"
proof (induction es arbitrary: l)
  case (Cons e es)
  have "set (received (link_step lo e l)) \<subseteq> set (received l) \<union> {(s, t). SnapshotArrived s t = e}"
    by (cases e) (auto simp: connection_over_def Let_def)
  with Cons.IH [of "link_step lo e l"] show ?case by auto
qed simp

lemma default_state_trip: "(map_instants f default_state)\<lparr>next_seq := 0\<rparr> = default_state"
  by (simp add: map_instants_def default_state_def)

subsection \<open>The newest messages of a view\<close>

fun lens_fit :: "observation \<Rightarrow> bool" where
  "lens_fit (Publish topic peer ms) = (\<forall>m \<in> set ms. pm_original_len m < 2 ^ 64)"
| "lens_fit _ = True"

lemma stamped_len: "m \<in> set (stamped topic now s ms) \<Longrightarrow> \<exists>pm \<in> set ms. rm_original_len m = pm_original_len pm"
  by (induction ms arbitrary: s) auto

lemma fold_obs_lens:
  assumes "\<forall>o' \<in> set (map fst es). lens_fit o'" and "\<forall>m \<in> set (recent_messages st). rm_original_len m < 2 ^ 64"
  shows "\<forall>m \<in> set (recent_messages (fold_obs es st)). rm_original_len m < 2 ^ 64"
  using assms
proof (induction es arbitrary: st)
  case (Cons e es)
  have "\<forall>m \<in> set (appended (fst e) (snd e) q). rm_original_len m < 2 ^ 64" for q
    using Cons.prems(1) by (cases "fst e") (auto dest!: stamped_len)
  with Cons.prems have "\<forall>m \<in> set (recent_messages (apply_timed e st)). rm_original_len m < 2 ^ 64"
    by (auto simp: apply_timed_recent)
  with Cons show ?case by simp
qed simp

lemma view_in_memory:
  assumes "\<forall>o' \<in> set (map fst es). lens_fit o'" and "cap < 2 ^ 64"
  shows "in_memory (view_of cap es)"
proof -
  have "\<forall>m \<in> set (recent_messages (fold_obs es (start_state cap))). rm_original_len m < 2 ^ 64"
    using assms(1) by (rule fold_obs_lens) (simp add: start_state_def default_state_def)
  moreover have "set (recent_messages (view_of cap es)) \<subseteq> set (recent_messages (fold_obs es (start_state cap)))"
    by (auto simp: view_of_def trim_recent_def pop_while_over_drop dest: in_set_dropD)
  moreover have "recent_buffer_capacity (view_of cap es) = cap"
    by (simp add: view_of_def start_state_def)
  ultimately show ?thesis using assms(2) by (auto simp: in_memory_def)
qed

lemma shown_stamped:
  "map shown_message (stamped topic now s ms) =
     map (\<lambda>m. (topic, pm_data m, pm_attributes m, pm_original_len m, pm_truncated m)) ms"
  by (induction ms arbitrary: s) (simp_all add: shown_message_def)

lemma view_after_publish:
  assumes "map fst es = obs @ [Publish topic peer ms]" and "length ms \<le> cap"
  shows "\<exists>earlier. map shown_message (recent_messages (view_of cap es)) =
    earlier @ map (\<lambda>m. (topic, pm_data m, pm_attributes m, pm_original_len m, pm_truncated m)) ms"
proof -
  obtain es0 t where es: "es = es0 @ [(Publish topic peer ms, t)]"
    using assms(1) by (metis append_butlast_last_id list.map_disc_iff map_butlast last_map prod.collapse snoc_eq_iff_butlast)
  let ?st = "fold_obs es0 (start_state cap)"
  have "recent_messages (view_of cap es) =
      drop (length (recent_messages ?st) + length ms - cap) (recent_messages ?st @ stamped topic t (next_seq ?st) ms)"
    by (simp add: es view_of_def trim_recent_def pop_while_over_drop apply_timed_recent)
  with assms(2) show ?thesis by (auto simp: shown_stamped)
qed

end
