(* ===== verification/Streaming_Facts.thy ===== *)
theory Streaming_Facts
  imports Subscriber State_Props
begin

text \<open>
  The proxied StreamingPull keeps its promises for every order in which the client, the upstream and
  the two pumps make progress: frames are relayed in order, the consumer is opened and closed once,
  and what is counted is what was read.
\<close>

subsection \<open>What a run emits, as a function of what it read\<close>

text \<open>The subscriptions the client named, in order; the cell latches the last of them.\<close>

definition named :: "'x StreamingPullRequest list \<Rightarrow> string list" where
  "named reqs = filter (\<lambda>s. s \<noteq> '''') (map sp_subscription reqs)"

fun is_consumer_event :: "observation \<Rightarrow> bool" where
  "is_consumer_event (ConsumerOpen s p) = True"
| "is_consumer_event (ConsumerClose s p) = True"
| "is_consumer_event _ = False"

definition consumer_trace :: "socket_addr option \<Rightarrow> bool \<Rightarrow> string list \<Rightarrow> observation list" where
  "consumer_trace peer closed names =
     (case names of [] \<Rightarrow> []
      | s # _ \<Rightarrow> ConsumerOpen s peer # (if closed then [ConsumerClose (last names) peer] else []))"

fun acked_by :: "observation \<Rightarrow> u64" where
  "acked_by (Ack s p n) = n"
| "acked_by _ = 0"

fun delivered_by :: "observation \<Rightarrow> u64" where
  "delivered_by (Deliver s p n) = n"
| "delivered_by _ = 0"

fun frame_messages :: "'e + 'y StreamingPullResponse \<Rightarrow> u64" where
  "frame_messages (Inl status) = 0"
| "frame_messages (Inr resp) = of_nat (length (sp_received_messages resp))"

fun in_flight_up :: "'x inbound_at \<Rightarrow> 'x StreamingPullRequest list" where
  "in_flight_up (SendingUp req) = [req]"
| "in_flight_up _ = []"

fun in_flight_down :: "('e, 'y) outbound_at \<Rightarrow> ('e + 'y StreamingPullResponse) list" where
  "in_flight_down (SendingDown resp) = [Inr resp]"
| "in_flight_down (SendingStatus status) = [Inl status]"
| "in_flight_down _ = []"

text \<open>
  The relay: each channel has received what was read from the other side, in order, but for the frame
  in flight; when a pump has ended the frame it was sending may be lost.
\<close>

definition relay_inv :: "('e, 'x, 'y) pumps \<Rightarrow> bool" where
  "relay_inv p \<longleftrightarrow>
     (\<exists>lost. read_up p = sent_up p @ in_flight_up (inbound_at p) @ lost \<and> length lost \<le> 1 \<and>
        (inbound_at p \<noteq> InboundEnded \<longrightarrow> lost = [])) \<and>
     (\<exists>lost. read_down p = sent_down p @ in_flight_down (outbound_at p) @ lost \<and> length lost \<le> 1 \<and>
        (outbound_at p \<noteq> OutboundEnded \<longrightarrow> lost = []))"

definition account_inv :: "socket_addr option \<Rightarrow> ('e, 'x, 'y) pumps \<Rightarrow> bool" where
  "account_inv peer p \<longleftrightarrow>
     opened p = (named (read_up p) \<noteq> []) \<and>
     subscription_cell p = (if named (read_up p) = [] then '''' else last (named (read_up p))) \<and>
     filter is_consumer_event (emitted p) = consumer_trace peer (closed_down p) (named (read_up p)) \<and>
     sum_list (map acked_by (emitted p)) = (\<Sum>req \<leftarrow> read_up p. of_nat (length (sp_ack_ids req))) \<and>
     sum_list (map delivered_by (emitted p)) = sum_list (map frame_messages (read_down p))"

definition metadata_inv :: "(string \<times> string) list \<Rightarrow> ('e, 'x, 'y) pumps \<Rightarrow> bool" where
  "metadata_inv metadata p \<longleftrightarrow>
     upstream_metadata p = (if outbound_at p = Calling then None else Some metadata)"

definition pumps_inv :: "socket_addr option \<Rightarrow> (string \<times> string) list \<Rightarrow> ('e, 'x, 'y) pumps \<Rightarrow> bool" where
  "pumps_inv peer metadata p \<longleftrightarrow> relay_inv p \<and> account_inv peer p \<and> metadata_inv metadata p"

lemma relay_gap_up: "relay_inv p \<Longrightarrow> prefix (sent_up p) (read_up p) \<and> length (read_up p) - length (sent_up p) \<le> 1"
  unfolding relay_inv_def by (cases "inbound_at p") auto

lemma relay_gap_down:
  "relay_inv p \<Longrightarrow> prefix (sent_down p) (read_down p) \<and> length (read_down p) - length (sent_down p) \<le> 1"
  unfolding relay_inv_def by (cases "outbound_at p") auto

text \<open>While both pumps run nothing is lost.\<close>

lemma relay_running:
  assumes "relay_inv p" and "\<not> pump_ended p"
  shows "read_up p = sent_up p @ in_flight_up (inbound_at p)" "read_down p = sent_down p @ in_flight_down (outbound_at p)"
  using assms by (auto simp: relay_inv_def pump_ended_def)

subsection \<open>The taps\<close>

lemma named_snoc: "named (reqs @ [req]) = named reqs @ (if sp_subscription req = '''' then [] else [sp_subscription req])"
  by (simp add: named_def)

lemma tap_client_frame_frame [simp]:
  "read_up (tap_client_frame peer req p) = read_up p" "sent_up (tap_client_frame peer req p) = sent_up p"
  "read_down (tap_client_frame peer req p) = read_down p" "sent_down (tap_client_frame peer req p) = sent_down p"
  "outbound_at (tap_client_frame peer req p) = outbound_at p" "closed_down (tap_client_frame peer req p) = closed_down p"
  "upstream_metadata (tap_client_frame peer req p) = upstream_metadata p"
  by (simp_all add: tap_client_frame_def Let_def)

lemma tap_server_frame_frame [simp]:
  "read_up (tap_server_frame peer resp p) = read_up p" "sent_up (tap_server_frame peer resp p) = sent_up p"
  "read_down (tap_server_frame peer resp p) = read_down p" "sent_down (tap_server_frame peer resp p) = sent_down p"
  "inbound_at (tap_server_frame peer resp p) = inbound_at p" "closed_down (tap_server_frame peer resp p) = closed_down p"
  "upstream_metadata (tap_server_frame peer resp p) = upstream_metadata p"
  "opened (tap_server_frame peer resp p) = opened p"
  "subscription_cell (tap_server_frame peer resp p) = subscription_cell p"
  by (simp_all add: tap_server_frame_def Let_def)

lemma tap_client_frame_account:
  assumes "account_inv peer p" and "\<not> closed_down p"
  shows "account_inv peer ((tap_client_frame peer req (p\<lparr>read_up := read_up p @ [req]\<rparr>))\<lparr>inbound_at := i\<rparr>)"
  using assms
  by (cases "named (read_up p)")
    (auto simp: account_inv_def tap_client_frame_def Let_def named_snoc consumer_trace_def split: if_splits)

lemma tap_server_frame_account:
  assumes "account_inv peer p"
  shows "account_inv peer ((tap_server_frame peer resp (p\<lparr>read_down := read_down p @ [Inr resp]\<rparr>))\<lparr>outbound_at := o'\<rparr>)"
  using assms by (auto simp: account_inv_def tap_server_frame_def Let_def word_gt_0)

lemma tear_down_account:
  "account_inv peer p \<Longrightarrow> \<not> closed_down p \<Longrightarrow> account_inv peer (tear_down peer p)"
  by (cases "named (read_up p)") (auto simp: account_inv_def tear_down_def Let_def consumer_trace_def)

subsection \<open>The steps\<close>

lemma inbound_step_account:
  "account_inv peer p \<Longrightarrow> \<not> closed_down p \<Longrightarrow> account_inv peer (inbound_step peer e i p)"
  by (cases "(peer, e, i, p)" rule: inbound_step.cases)
    (simp_all add: tap_client_frame_account, simp_all add: account_inv_def)

lemma outbound_step_account:
  "account_inv peer p \<Longrightarrow> account_inv peer (outbound_step peer metadata e o' p)"
  by (cases "(peer, metadata, e, o', p)" rule: outbound_step.cases)
    (simp_all add: tap_server_frame_account, simp_all add: account_inv_def)

lemma inbound_step_frame [simp]:
  "outbound_at (inbound_step peer e i p) = outbound_at p"
  "read_down (inbound_step peer e i p) = read_down p"
  "sent_down (inbound_step peer e i p) = sent_down p"
  "closed_down (inbound_step peer e i p) = closed_down p"
  "upstream_metadata (inbound_step peer e i p) = upstream_metadata p"
  by (cases "(peer, e, i, p)" rule: inbound_step.cases; simp)+

lemma outbound_step_frame [simp]:
  "inbound_at (outbound_step peer metadata e o' p) = inbound_at p"
  "read_up (outbound_step peer metadata e o' p) = read_up p"
  "sent_up (outbound_step peer metadata e o' p) = sent_up p"
  "closed_down (outbound_step peer metadata e o' p) = closed_down p"
  by (cases "(peer, metadata, e, o', p)" rule: outbound_step.cases; simp)+

lemma inbound_step_relay:
  "relay_inv p \<Longrightarrow> relay_inv (inbound_step peer e (inbound_at p) p)"
  by (cases "(peer, e, inbound_at p, p)" rule: inbound_step.cases) (auto simp: relay_inv_def)

lemma outbound_step_relay:
  "relay_inv p \<Longrightarrow> relay_inv (outbound_step peer metadata e (outbound_at p) p)"
  by (cases "(peer, metadata, e, outbound_at p, p)" rule: outbound_step.cases) (auto simp: relay_inv_def)

lemma outbound_step_metadata:
  "metadata_inv metadata p \<Longrightarrow> metadata_inv metadata (outbound_step peer metadata e (outbound_at p) p)"
  by (cases "(peer, metadata, e, outbound_at p, p)" rule: outbound_step.cases) (auto simp: metadata_inv_def)

lemma inbound_step_metadata [simp]:
  "metadata_inv metadata (inbound_step peer e i p) = metadata_inv metadata p"
  by (simp add: metadata_inv_def)

lemma tear_down_relay: "relay_inv p \<Longrightarrow> relay_inv (tear_down peer p)"
  by (simp add: relay_inv_def tear_down_def Let_def)

lemma tear_down_metadata: "metadata_inv metadata p \<Longrightarrow> metadata_inv metadata (tear_down peer p)"
  by (simp add: metadata_inv_def tear_down_def Let_def)

lemma pump_step_inv:
  assumes "pumps_inv peer metadata p"
  shows "pumps_inv peer metadata (pump_step peer metadata e p)"
proof -
  have tear: "\<not> closed_down p \<Longrightarrow> pumps_inv peer metadata (tear_down peer p)"
    using assms by (simp add: pumps_inv_def tear_down_account tear_down_relay tear_down_metadata)
  have step: "pumps_inv peer metadata
      (let q = inbound_step peer e (inbound_at p) p in outbound_step peer metadata e (outbound_at q) q)"
    if "\<not> closed_down p"
    using assms that unfolding pumps_inv_def Let_def
    by (intro conjI outbound_step_relay inbound_step_relay outbound_step_account inbound_step_account
        outbound_step_metadata) simp_all
  show ?thesis
    using assms tear step by (auto simp: pump_step_def Let_def split: pump_event.splits)
qed

lemma pumps_start_inv: "pumps_inv peer metadata pumps_start"
  by (simp add: pumps_inv_def relay_inv_def account_inv_def metadata_inv_def pumps_start_def named_def
      consumer_trace_def)

interpretation pumping: event_machine "pump_step peer metadata" "pumps_inv peer metadata" pumps_start
  by unfold_locales (simp_all add: pump_step_inv pumps_start_inv)

lemma run_account: "account_inv peer (pump_run peer metadata events)"
proof -
  have "pumps_inv peer metadata (pump_run peer metadata events)" by (rule pumping.reachable_inv)
  then show ?thesis by (simp add: pumps_inv_def)
qed

lemma pump_run_closed:
  "closed_down p \<Longrightarrow> fold (pump_step peer metadata) events p = p"
  by (induction events) (simp_all add: pump_step_def)

subsection \<open>Properties\<close>


text \<open>
  Claim C18. The consumer is opened once and closed once: the open and close observations a stream has
  emitted are exactly an open of the first subscription the client named and, once the stream is torn
  down, a close of the last one it named; without a named subscription there are none.
\<close>

theorem streaming_opens_and_closes_once:
  "let p = pump_run peer metadata events in
     filter is_consumer_event (emitted p) =
       consumer_trace peer (closed_down p) (filter (\<lambda>s. s \<noteq> '''') (map sp_subscription (read_up p)))"
  using run_account [of peer metadata events] by (simp add: Let_def account_inv_def named_def)

text \<open>
  Claim C29. What a stream counts is what it carried: the acknowledged totals it emits add up to the
  acknowledgement ids in the frames read from the client, the delivered totals to the messages in the
  frames read from the upstream.
\<close>

theorem streaming_counts_frames:
  "let p = pump_run peer metadata events in
     sum_list (map acked_by (emitted p)) = (\<Sum>req \<leftarrow> read_up p. of_nat (length (sp_ack_ids req))) \<and>
     sum_list (map delivered_by (emitted p)) = sum_list (map frame_messages (read_down p))"
  using run_account [of peer metadata events] by (simp only: Let_def account_inv_def)

text \<open>
  A client that ends its side of the stream gets nothing more: whatever the upstream still sends, and even a
  frame that was read and counted and is waiting to be sent, is not passed on once the client has
  half-closed.
\<close>

lemma ended_frozen:
  assumes "pump_ended p"
  shows "sent_down (fold (pump_step peer metadata) events p) = sent_down p \<and>
    read_down (fold (pump_step peer metadata) events p) = read_down p"
proof (cases "TearDown \<in> set events \<and> \<not> closed_down p")
  case False
  then have "fold (pump_step peer metadata) events p = p"
    using assms by (induction events) (auto simp: pump_step_def split: pump_event.split)
  then show ?thesis by simp
next
  case True
  then obtain es es' where es: "events = es @ TearDown # es'" "TearDown \<notin> set es" by (meson split_list_first)
  have "fold (pump_step peer metadata) es p = p"
    using assms es(2) by (induction es) (auto simp: pump_step_def split: pump_event.split)
  moreover have "pump_step peer metadata TearDown p = tear_down peer p"
    using assms True by (simp add: pump_step_def)
  moreover have "fold (pump_step peer metadata) es' (tear_down peer p) = tear_down peer p"
    by (rule pump_run_closed) (simp add: tear_down_def Let_def)
  ultimately show ?thesis by (simp add: es(1)) (simp add: tear_down_def Let_def)
qed

theorem half_close_ends_deliveries:
  assumes "inbound_at p = Reading" and "\<not> closed_down p" and "\<not> pump_ended p"
  shows "sent_down (fold (pump_step peer metadata) (ClientEnded # events) p) = sent_down p \<and>
    read_down (fold (pump_step peer metadata) (ClientEnded # events) p) = read_down p"
proof -
  have "pump_step peer metadata ClientEnded p = p\<lparr>inbound_at := InboundEnded\<rparr>"
    using assms by (cases "outbound_at p") (simp_all add: pump_step_def Let_def)
  moreover have "pump_ended (p\<lparr>inbound_at := InboundEnded\<rparr>)" by (simp add: pump_ended_def)
  ultimately show ?thesis using ended_frozen [of "p\<lparr>inbound_at := InboundEnded\<rparr>" peer metadata events] by simp
qed

theorem half_close_ends_deliveries_witness:
  "let p = pump_run None [] [CallUpstream, UpstreamAnswered, ServerFrame \<lparr>sp_received_messages = [()]\<rparr>] :: (unit, unit, unit) pumps in
     read_down p = [Inr \<lparr>sp_received_messages = [()]\<rparr>] \<and>
     sent_down (fold (pump_step None []) (ClientEnded # [DownAccepted, TearDown]) p) = []"
  unfolding Let_def
  by (subst half_close_ends_deliveries [THEN conjunct1])
    (simp_all add: pumps_start_def pump_step_def pump_ended_def tap_server_frame_def Let_def)

end
