(* ===== verification/Stream_Counting.thy ===== *)
theory Stream_Counting
  imports Streaming_Facts
begin

text \<open>
  The live-consumer figure across many concurrent streams: the proxy's pumps and the application
  state together.
\<close>

lemma opens_simps [simp]:
  "opens sub [] = 0" "opens sub (x # xs) = of_bool (is_open_of sub x) + opens sub xs"
  by (simp_all add: opens_def)

lemma closes_simps [simp]:
  "closes sub [] = 0" "closes sub (x # xs) = of_bool (is_close_of sub x) + closes sub xs"
  by (simp_all add: closes_def)

lemma is_open_of_consumer: "is_open_of sub x \<Longrightarrow> is_consumer_event x"
  by (cases x) auto

lemma is_close_of_consumer: "is_close_of sub x \<Longrightarrow> is_consumer_event x"
  by (cases x) auto

lemma opens_filter: "opens sub (filter is_consumer_event xs) = opens sub xs"
  by (induction xs) (auto dest: is_open_of_consumer)

lemma closes_filter: "closes sub (filter is_consumer_event xs) = closes sub xs"
  by (induction xs) (auto dest: is_close_of_consumer)

text \<open>Only the consumer events of a run move the live figure.\<close>

lemma live_filter:
  "tot_live (fold spec_obs xs tot) sub = tot_live (fold spec_obs (filter is_consumer_event xs) tot) sub"
proof -
  have "tot_live tot sub = tot_live tot' sub \<Longrightarrow>
      tot_live (fold spec_obs xs tot) sub = tot_live (fold spec_obs (filter is_consumer_event xs) tot') sub"
    for tot tot'
  proof (induction xs arbitrary: tot tot')
    case (Cons x xs)
    then show ?case
      by (cases "is_consumer_event x")
        (auto simp: spec_obs_live dest: is_open_of_consumer is_close_of_consumer intro!: Cons.IH)
  qed simp
  then show ?thesis by simp
qed

lemma live_figure:
  "live_consumers (subscription_at (fold_obs es (start_state cap)) sub) =
     tot_live (fold spec_obs (map fst es) (abs_totals (start_state cap))) sub"
proof -
  have "live_consumers (subscription_at (fold_obs es (start_state cap)) sub) =
      tot_live (abs_totals (fold_obs es (start_state cap))) sub"
    by (simp add: abs_totals_def)
  then show ?thesis by (simp only: fold_obs_totals)
qed

lemma start_live: "tot_live (abs_totals (start_state cap)) sub = 0"
  by (simp add: abs_totals_def subscription_at_def start_state_def state_defs)

text \<open>Counting over a tagged interleaving is counting per tag.\<close>

lemma count_by_tag:
  fixes es :: "(nat \<times> 'a) list"
  assumes "\<forall>e \<in> set es. P (snd e) \<longrightarrow> fst e < n"
  shows "length (filter P (map snd es)) = (\<Sum>i<n. length (filter P (map snd (filter (\<lambda>e. fst e = i) es))))"
  using assms
proof (induction es)
  case (Cons e es)
  have "(\<Sum>i<n. length (filter P (map snd (filter (\<lambda>e. fst e = i) (e # es))))) =
      (\<Sum>i<n. (if i = fst e then of_bool (P (snd e)) else 0) +
         length (filter P (map snd (filter (\<lambda>e. fst e = i) es))))"
    by (rule sum.cong) auto
  also have "\<dots> = of_bool (P (snd e)) + length (filter P (map snd es))"
    using Cons by (auto simp: sum.distrib)
  finally show ?case by simp
qed simp

subsection \<open>One stream\<close>

text \<open>A stream whose client names one subscription only.\<close>

definition names_only :: "string \<Rightarrow> ('e, 'x, 'y) pumps \<Rightarrow> bool" where
  "names_only s p \<longleftrightarrow> (\<forall>req \<in> set (read_up p). sp_subscription req \<in> {'''', s})"

lemma names_only_named: "names_only s p \<Longrightarrow> set (named (read_up p)) \<subseteq> {s}"
  by (auto simp: names_only_def named_def)

lemma one_subscription_trace:
  assumes "account_inv peer p" and "names_only s p"
  shows "filter is_consumer_event (emitted p) =
    (if opened p then ConsumerOpen s peer # (if closed_down p then [ConsumerClose s peer] else []) else [])"
proof (cases "named (read_up p)")
  case Nil
  with assms show ?thesis by (simp add: account_inv_def consumer_trace_def)
next
  case (Cons x xs)
  have "last (named (read_up p)) = s" "x = s"
    using names_only_named [OF assms(2)] Cons last_in_set [of "named (read_up p)"] by auto
  with assms(1) Cons show ?thesis by (simp add: account_inv_def consumer_trace_def)
qed

lemma stream_prefix_balanced:
  assumes "account_inv peer p" and "names_only s p" and "prefix ys (emitted p)"
  shows "closes sub ys \<le> opens sub ys"
proof -
  have "prefix (filter is_consumer_event ys) (filter is_consumer_event (emitted p))"
    using assms(3) by (auto simp: prefix_def)
  then have "closes sub (filter is_consumer_event ys) \<le> opens sub (filter is_consumer_event ys)"
    unfolding one_subscription_trace [OF assms(1,2)]
    by (auto simp: prefix_Cons split: if_splits)
  then show ?thesis by (simp add: opens_filter closes_filter)
qed

lemma stream_balance:
  assumes "account_inv peer p" and "names_only s p"
  shows "opens sub (emitted p) = closes sub (emitted p) + of_bool (s = sub \<and> opened p \<and> \<not> closed_down p)"
proof -
  have "opens sub (filter is_consumer_event (emitted p)) =
      closes sub (filter is_consumer_event (emitted p)) + of_bool (s = sub \<and> opened p \<and> \<not> closed_down p)"
    unfolding one_subscription_trace [OF assms] by auto
  then show ?thesis by (simp add: opens_filter closes_filter)
qed

subsection \<open>Many streams\<close>

text \<open>
  An interleaving of \<open>n\<close> streams: observation tagged \<open>i\<close> comes from stream \<open>i\<close>, in that stream's
  order; observations of other origin (tags from \<open>n\<close> on) open and close no consumer.
\<close>

definition interleaves :: "nat \<Rightarrow> (nat \<Rightarrow> ('e, 'x, 'y) pumps) \<Rightarrow> (nat \<times> observation) list \<Rightarrow> bool" where
  "interleaves n runs es \<longleftrightarrow>
     (\<forall>i<n. map snd (filter (\<lambda>e. fst e = i) es) = emitted (runs i)) \<and>
     (\<forall>e \<in> set es. is_consumer_event (snd e) \<longrightarrow> fst e < n)"

definition single_subscription_streams ::
  "nat \<Rightarrow> (nat \<Rightarrow> socket_addr option) \<Rightarrow> (nat \<Rightarrow> string) \<Rightarrow> (nat \<Rightarrow> ('e, 'x, 'y) pumps) \<Rightarrow> bool" where
  "single_subscription_streams n peer sub_of runs \<longleftrightarrow>
     (\<forall>i<n. account_inv (peer i) (runs i) \<and> names_only (sub_of i) (runs i))"

lemma tagged_opens:
  assumes "interleaves n runs es" and "prefix fs es"
  shows "opens sub (map snd fs) = (\<Sum>i<n. opens sub (map snd (filter (\<lambda>e. fst e = i) fs)))"
  unfolding opens_def
  by (rule count_by_tag)
    (use assms in \<open>auto simp: interleaves_def prefix_def dest!: is_open_of_consumer\<close>)

lemma tagged_closes:
  assumes "interleaves n runs es" and "prefix fs es"
  shows "closes sub (map snd fs) = (\<Sum>i<n. closes sub (map snd (filter (\<lambda>e. fst e = i) fs)))"
  unfolding closes_def
  by (rule count_by_tag)
    (use assms in \<open>auto simp: interleaves_def prefix_def dest!: is_close_of_consumer\<close>)

lemma tagged_prefix:
  assumes "interleaves n runs es" and "prefix fs es" and "i < n"
  shows "prefix (map snd (filter (\<lambda>e. fst e = i) fs)) (emitted (runs i))"
proof -
  from assms(2) obtain zs where "es = fs @ zs" by (auto simp: prefix_def)
  then have "map snd (filter (\<lambda>e. fst e = i) fs) @ map snd (filter (\<lambda>e. fst e = i) zs) =
      map snd (filter (\<lambda>e. fst e = i) es)" by simp
  also have "\<dots> = emitted (runs i)" using assms(1,3) by (simp add: interleaves_def)
  finally show ?thesis by (metis prefixI)
qed

lemma interleaving_prefix_balanced:
  assumes "interleaves n runs es" and "single_subscription_streams n peer sub_of runs" and "prefix fs es"
  shows "closes sub (map snd fs) \<le> opens sub (map snd fs)"
  unfolding tagged_opens [OF assms(1,3)] tagged_closes [OF assms(1,3)]
proof (rule sum_mono)
  fix i assume "i \<in> {..<n}"
  then have "prefix (map snd (filter (\<lambda>e. fst e = i) fs)) (emitted (runs i))"
    using tagged_prefix [OF assms(1,3)] by simp
  with \<open>i \<in> {..<n}\<close> assms(2)
  show "closes sub (map snd (filter (\<lambda>e. fst e = i) fs)) \<le> opens sub (map snd (filter (\<lambda>e. fst e = i) fs))"
    unfolding single_subscription_streams_def lessThan_iff by (blast intro: stream_prefix_balanced)
qed

lemma interleaving_balance:
  assumes "interleaves n runs es" and "single_subscription_streams n peer sub_of runs"
  shows "opens sub (map snd es) - closes sub (map snd es) =
     card {i. i < n \<and> sub_of i = sub \<and> opened (runs i) \<and> \<not> closed_down (runs i)}"
proof -
  let ?live = "\<lambda>i. sub_of i = sub \<and> opened (runs i) \<and> \<not> closed_down (runs i)"
  have "opens sub (emitted (runs i)) = closes sub (emitted (runs i)) + of_bool (?live i)" if "i < n" for i
    using assms(2) that unfolding single_subscription_streams_def by (blast intro: stream_balance)
  moreover have emitted: "map snd (filter (\<lambda>e. fst e = i) es) = emitted (runs i)" if "i < n" for i
    using assms(1) that unfolding interleaves_def by blast
  ultimately have "opens sub (map snd es) = (\<Sum>i<n. closes sub (emitted (runs i)) + of_bool (?live i))"
    unfolding tagged_opens [OF assms(1) prefix_order.refl] by (intro sum.cong) simp_all
  moreover have "closes sub (map snd es) = (\<Sum>i<n. closes sub (emitted (runs i)))"
    unfolding tagged_closes [OF assms(1) prefix_order.refl] by (intro sum.cong) (simp_all add: emitted)
  moreover have "(\<Sum>i<n. of_bool (?live i)) = card {i. i < n \<and> ?live i}"
    by (simp add: of_bool_def sum.If_cases Collect_conj_eq lessThan_def)
  ultimately show ?thesis by (simp add: sum.distrib)
qed

lemma interleaved_live_figure:
  assumes "runs = (\<lambda>i. pump_run (peer i) (metadata i) (events i))"
    and "\<forall>i<n. names_only (sub_of i) (runs i)"
    and "interleaves n runs (map (\<lambda>e. (fst e, fst (snd e))) es)"
    and "length es < 2 ^ 64"
  shows "live_consumers (subscription_at (fold_obs (map snd es) (start_state cap)) sub) =
    of_nat (card {i. i < n \<and> sub_of i = sub \<and> opened (runs i) \<and> \<not> closed_down (runs i)})"
proof -
  let ?es = "map (\<lambda>e. (fst e, fst (snd e))) es"
  have streams: "single_subscription_streams n peer sub_of runs"
    using assms(1,2) by (simp add: single_subscription_streams_def run_account)
  have obs: "map fst (map snd es) = map snd ?es" by simp
  have "closes sub (take k (map snd ?es)) \<le> opens sub (take k (map snd ?es))" for k
    using interleaving_prefix_balanced [OF assms(3) streams take_is_prefix [of k], of sub]
    by (simp only: take_map)
  then have "live_consumers (subscription_at (fold_obs (map snd es) (start_state cap)) sub) =
      of_nat (opens sub (map snd ?es) - closes sub (map snd ?es))"
    using live_balance [of sub "map snd ?es" "abs_totals (start_state cap)"] assms(4) start_live
    by (simp add: live_figure obs del: map_map)
  then show ?thesis by (simp only: interleaving_balance [OF assms(3) streams])
qed

subsection \<open>Properties\<close>


text \<open>
  Claim C37. A stream that names a second subscription leaks a live consumer: the first one named keeps
  a consumer after the stream is gone, because the close is charged to the last one named.
\<close>

theorem relatched_stream_leaks:
  assumes "p = pump_run peer metadata events" and "closed_down p"
    and "named (read_up p) = s # names" and "last (s # names) \<noteq> s"
  shows "tot_live (abs_totals (fold_obs (map (\<lambda>x. (x, now)) (emitted p)) st)) s =
    tot_live (abs_totals st) s + 1"
proof -
  have "filter is_consumer_event (emitted p) = [ConsumerOpen s peer, ConsumerClose (last (s # names)) peer]"
    using run_account [of peer metadata events] assms by (simp add: account_inv_def consumer_trace_def)
  then have "tot_live (fold spec_obs (emitted p) (abs_totals st)) s = tot_live (abs_totals st) s + 1"
    using assms(4) by (subst live_filter) simp
  then show ?thesis by (simp add: fold_obs_totals comp_def)
qed

subsection \<open>Concrete streams\<close>

text \<open>
  The client names a subscription and goes on; names it and leaves; names two and leaves.
\<close>

definition frame_naming :: "string \<Rightarrow> unit StreamingPullRequest" where
  "frame_naming s = \<lparr>sp_subscription = s, sp_ack_ids = [], sp_rest = ()\<rparr>"

definition staying :: "(unit, unit, unit) pump_event list" where
  "staying = [ClientFrame (frame_naming ''s''), UpAccepted]"

definition leaving :: "(unit, unit, unit) pump_event list" where
  "leaving = [ClientFrame (frame_naming ''s''), UpAccepted, ClientEnded, TearDown]"

definition renaming :: "(unit, unit, unit) pump_event list" where
  "renaming = [ClientFrame (frame_naming ''s''), UpAccepted, ClientFrame (frame_naming ''t''), UpRefused, TearDown]"

lemmas stream_evaluation = pumps_start_def frame_naming_def staying_def leaving_def renaming_def
  pump_step_def pump_ended_def tap_client_frame_def tear_down_def

lemma staying_run [simp]:
  "emitted (pump_run None [] staying) = [ConsumerOpen ''s'' None]"
  "opened (pump_run None [] staying)" "\<not> closed_down (pump_run None [] staying)"
  "names_only ''s'' (pump_run None [] staying)"
  by (simp_all add: stream_evaluation names_only_def)

lemma leaving_run [simp]:
  "emitted (pump_run None [] leaving) = [ConsumerOpen ''s'' None, ConsumerClose ''s'' None]"
  "closed_down (pump_run None [] leaving)" "names_only ''s'' (pump_run None [] leaving)"
  by (simp_all add: stream_evaluation names_only_def)

lemma renaming_run [simp]:
  "emitted (pump_run None [] renaming) = [ConsumerOpen ''s'' None, ConsumerClose ''t'' None]"
  "closed_down (pump_run None [] renaming)" "named (read_up (pump_run None [] renaming)) = [''s'', ''t'']"
  by (simp_all add: stream_evaluation named_def)


theorem relatched_stream_leaks_witness:
  "tot_live (abs_totals (fold_obs [(ConsumerOpen ''s'' None, 0), (ConsumerClose ''t'' None, 0)] (start_state 4))) ''s'' = 1"
  using relatched_stream_leaks [of "pump_run None [] renaming" None "[]" renaming "''s''" "[''t'']" 0 "start_state 4"]
  by (simp add: start_live)

end
