(* ===== verification/Stream_Buffers.thy ===== *)
theory Stream_Buffers
  imports Streaming_Facts
begin

text \<open>
  \<^verbatim>\<open>src/proxy/subscriber.rs\<close>: the two bounded channels of a proxied \<open>StreamingPull\<close>, between the pumps and
  the two streams the gRPC library drives. A pump that sends into a full channel waits, so a slow receiver
  holds back the sender of the other side.
\<close>

definition STREAM_BUFFER :: nat where
  "STREAM_BUFFER = 64"

subsection \<open>The pumps with their channels\<close>

text \<open>\<open>up_taken\<close> and \<open>down_taken\<close> record what the two streams took out of the channels.\<close>

record ('e, 'x, 'y) buffered =
  bf_pumps :: "('e, 'x, 'y) pumps"
  bf_up :: "'x StreamingPullRequest channel"
  bf_down :: "('e + 'y StreamingPullResponse) channel"
  up_taken :: "'x StreamingPullRequest list"
  down_taken :: "('e + 'y StreamingPullResponse) list"

definition buffered_start :: "('e, 'x, 'y) buffered" where
  "buffered_start = \<lparr>bf_pumps = pumps_start, bf_up = channel_new STREAM_BUFFER, bf_down = channel_new STREAM_BUFFER,
     up_taken = [], down_taken = []\<rparr>"

fun is_send :: "('e, 'x, 'y) pump_event \<Rightarrow> bool" where
  "is_send UpAccepted = True"
| "is_send UpRefused = True"
| "is_send DownAccepted = True"
| "is_send DownRefused = True"
| "is_send _ = False"

definition running :: "('e, 'x, 'y) pumps \<Rightarrow> bool" where
  "running p \<longleftrightarrow> \<not> closed_down p \<and> \<not> pump_ended p"

text \<open>
  A \<open>send\<close> completes when there is room, or fails once the receiver is gone; otherwise the pump stays where
  it is. The upstream's request stream is polled only after the call was made; either receiver may be
  dropped at any time, with what is in the channel.
\<close>

inductive buffered_step ::
  "socket_addr option \<Rightarrow> (string \<times> string) list \<Rightarrow> ('e, 'x, 'y) buffered \<Rightarrow> ('e, 'x, 'y) buffered \<Rightarrow> bool"
  for peer metadata where
  other: "\<not> is_send e \<Longrightarrow> buffered_step peer metadata b (b\<lparr>bf_pumps := pump_step peer metadata e (bf_pumps b)\<rparr>)"
| sends_up: "running (bf_pumps b) \<Longrightarrow> inbound_at (bf_pumps b) = SendingUp req \<Longrightarrow> try_send req (bf_up b) = (ch, True) \<Longrightarrow>
    buffered_step peer metadata b (b\<lparr>bf_pumps := pump_step peer metadata UpAccepted (bf_pumps b), bf_up := ch\<rparr>)"
| refused_up: "running (bf_pumps b) \<Longrightarrow> inbound_at (bf_pumps b) = SendingUp req \<Longrightarrow> \<not> ch_receiver_alive (bf_up b) \<Longrightarrow>
    buffered_step peer metadata b (b\<lparr>bf_pumps := pump_step peer metadata UpRefused (bf_pumps b)\<rparr>)"
| takes_up: "outbound_at (bf_pumps b) \<noteq> Calling \<Longrightarrow> ch_receiver_alive (bf_up b) \<Longrightarrow> try_recv (bf_up b) = Some (req, ch) \<Longrightarrow>
    buffered_step peer metadata b (b\<lparr>bf_up := ch, up_taken := up_taken b @ [req]\<rparr>)"
| drops_up: "buffered_step peer metadata b (b\<lparr>bf_up := (bf_up b)\<lparr>ch_queue := [], ch_receiver_alive := False\<rparr>\<rparr>)"
| sends_down: "running (bf_pumps b) \<Longrightarrow> in_flight_down (outbound_at (bf_pumps b)) = [frame] \<Longrightarrow>
    try_send frame (bf_down b) = (ch, True) \<Longrightarrow>
    buffered_step peer metadata b (b\<lparr>bf_pumps := pump_step peer metadata DownAccepted (bf_pumps b), bf_down := ch\<rparr>)"
| refused_down: "running (bf_pumps b) \<Longrightarrow> in_flight_down (outbound_at (bf_pumps b)) = [frame] \<Longrightarrow>
    \<not> ch_receiver_alive (bf_down b) \<Longrightarrow>
    buffered_step peer metadata b (b\<lparr>bf_pumps := pump_step peer metadata DownRefused (bf_pumps b)\<rparr>)"
| takes_down: "ch_receiver_alive (bf_down b) \<Longrightarrow> try_recv (bf_down b) = Some (frame, ch) \<Longrightarrow>
    buffered_step peer metadata b (b\<lparr>bf_down := ch, down_taken := down_taken b @ [frame]\<rparr>)"
| drops_down: "buffered_step peer metadata b (b\<lparr>bf_down := (bf_down b)\<lparr>ch_queue := [], ch_receiver_alive := False\<rparr>\<rparr>)"

inductive buffered_reachable for peer metadata where
  buffered_init: "buffered_reachable peer metadata buffered_start"
| buffered_next: "buffered_reachable peer metadata b \<Longrightarrow> buffered_step peer metadata b b' \<Longrightarrow>
    buffered_reachable peer metadata b'"

subsection \<open>What a send and any other event does to the pumps\<close>

lemma up_accepted: "running p \<Longrightarrow> inbound_at p = SendingUp req \<Longrightarrow>
    pump_step peer metadata UpAccepted p = p\<lparr>sent_up := sent_up p @ [req], inbound_at := Reading\<rparr>"
  by (cases "outbound_at p") (simp_all add: pump_step_def running_def Let_def)

lemma up_refused: "running p \<Longrightarrow> inbound_at p = SendingUp req \<Longrightarrow>
    pump_step peer metadata UpRefused p = p\<lparr>inbound_at := InboundEnded\<rparr>"
  by (cases "outbound_at p") (simp_all add: pump_step_def running_def Let_def)

lemma down_accepted: "running p \<Longrightarrow> in_flight_down (outbound_at p) = [frame] \<Longrightarrow>
    sent_down (pump_step peer metadata DownAccepted p) = sent_down p @ [frame] \<and>
    sent_up (pump_step peer metadata DownAccepted p) = sent_up p \<and>
    read_up (pump_step peer metadata DownAccepted p) = read_up p \<and>
    read_down (pump_step peer metadata DownAccepted p) = read_down p"
  by (cases "outbound_at p"; cases "inbound_at p") (simp_all add: pump_step_def running_def Let_def)

lemma down_refused: "running p \<Longrightarrow> in_flight_down (outbound_at p) = [frame] \<Longrightarrow>
    pump_step peer metadata DownRefused p = p\<lparr>outbound_at := OutboundEnded\<rparr>"
  by (cases "outbound_at p"; cases "inbound_at p") (simp_all add: pump_step_def running_def Let_def)

lemma other_sends_nothing:
  assumes "\<not> is_send e"
  shows "sent_up (pump_step peer metadata e p) = sent_up p" "sent_down (pump_step peer metadata e p) = sent_down p"
proof -
  have "sent_up (inbound_step peer e at q) = sent_up q \<and> sent_down (inbound_step peer e at q) = sent_down q" for at q
    using assms by (cases "(peer, e, at, q)" rule: inbound_step.cases) simp_all
  moreover have "sent_up (outbound_step peer metadata e at q) = sent_up q \<and> sent_down (outbound_step peer metadata e at q) = sent_down q"
    for at q
    using assms by (cases "(peer, metadata, e, at, q)" rule: outbound_step.cases) simp_all
  ultimately show "sent_up (pump_step peer metadata e p) = sent_up p" "sent_down (pump_step peer metadata e p) = sent_down p"
    by (simp_all add: pump_step_def tear_down_def Let_def split: pump_event.split)
qed

subsection \<open>The invariant\<close>

definition pipe_ok :: "'a list \<Rightarrow> 'a channel \<Rightarrow> 'a list \<Rightarrow> bool" where
  "pipe_ok sent ch taken \<longleftrightarrow> ch_capacity ch = STREAM_BUFFER \<and> length (ch_queue ch) \<le> STREAM_BUFFER \<and>
     prefix taken sent \<and> (ch_receiver_alive ch \<longrightarrow> sent = taken @ ch_queue ch)"

lemma pipe_send: "pipe_ok sent ch taken \<Longrightarrow> try_send x ch = (ch', True) \<Longrightarrow> pipe_ok (sent @ [x]) ch' taken"
  by (auto simp: pipe_ok_def try_send_def prefix_def split: if_splits)

lemma pipe_recv: "pipe_ok sent ch taken \<Longrightarrow> ch_receiver_alive ch \<Longrightarrow> try_recv ch = Some (x, ch') \<Longrightarrow>
    pipe_ok sent ch' (taken @ [x])"
  by (auto simp: pipe_ok_def try_recv_def prefix_def split: list.splits)

lemma pipe_drop: "pipe_ok sent ch taken \<Longrightarrow> pipe_ok sent (ch\<lparr>ch_queue := [], ch_receiver_alive := False\<rparr>) taken"
  by (simp add: pipe_ok_def)

lemma pipe_behind: "pipe_ok sent ch taken \<Longrightarrow> ch_receiver_alive ch \<Longrightarrow> length sent \<le> length taken + STREAM_BUFFER"
  by (simp add: pipe_ok_def)

lemma pipe_prefix: "pipe_ok sent ch taken \<Longrightarrow> prefix taken sent"
  by (simp add: pipe_ok_def)

definition buffered_inv :: "socket_addr option \<Rightarrow> (string \<times> string) list \<Rightarrow> ('e, 'x, 'y) buffered \<Rightarrow> bool" where
  "buffered_inv peer metadata b \<longleftrightarrow> pumps_inv peer metadata (bf_pumps b) \<and>
     pipe_ok (sent_up (bf_pumps b)) (bf_up b) (up_taken b) \<and> pipe_ok (sent_down (bf_pumps b)) (bf_down b) (down_taken b)"

lemma buffered_step_inv: "buffered_step peer metadata b b' \<Longrightarrow> buffered_inv peer metadata b \<Longrightarrow> buffered_inv peer metadata b'"
proof (induction rule: buffered_step.induct)
  case (other e b)
  then show ?case by (simp add: buffered_inv_def pump_step_inv other_sends_nothing)
next
  case (sends_up b req ch)
  then show ?case
    using pump_step_inv [of peer metadata "bf_pumps b" UpAccepted]
    by (auto simp: buffered_inv_def up_accepted intro: pipe_send)
next
  case (refused_up b req)
  then show ?case
    using pump_step_inv [of peer metadata "bf_pumps b" UpRefused] by (simp add: buffered_inv_def up_refused)
next
  case (sends_down b frame ch)
  then show ?case
    by (auto simp: buffered_inv_def pump_step_inv down_accepted intro: pipe_send)
next
  case (refused_down b frame)
  then show ?case
    using pump_step_inv [of peer metadata "bf_pumps b" DownRefused] by (simp add: buffered_inv_def down_refused)
qed (auto simp: buffered_inv_def pipe_drop intro: pipe_recv)

lemma buffered_reachable_inv: "buffered_reachable peer metadata b \<Longrightarrow> buffered_inv peer metadata b"
proof (induction rule: buffered_reachable.induct)
  case buffered_init
  show ?case
    using pumps_start_inv [of peer metadata]
    by (simp add: buffered_inv_def buffered_start_def pipe_ok_def channel_new_def) (simp add: pumps_start_def)
qed (blast intro: buffered_step_inv)

subsection \<open>Draining\<close>

lemma take_all_up:
  assumes "outbound_at (bf_pumps b) \<noteq> Calling" and "ch_receiver_alive (bf_up b)"
  shows "(buffered_step peer metadata)\<^sup>*\<^sup>* b
    (b\<lparr>bf_up := (bf_up b)\<lparr>ch_queue := []\<rparr>, up_taken := up_taken b @ ch_queue (bf_up b)\<rparr>)"
  using assms
proof (induction "ch_queue (bf_up b)" arbitrary: b)
  case Nil
  then have "b\<lparr>bf_up := (bf_up b)\<lparr>ch_queue := []\<rparr>, up_taken := up_taken b @ ch_queue (bf_up b)\<rparr> = b" by simp
  then show ?case by simp
next
  case (Cons req rest)
  let ?b = "b\<lparr>bf_up := (bf_up b)\<lparr>ch_queue := rest\<rparr>, up_taken := up_taken b @ [req]\<rparr>"
  have "buffered_step peer metadata b ?b"
    using Cons by (intro buffered_step.takes_up) (simp_all add: try_recv_def Cons.hyps(2) [symmetric])
  moreover have "(buffered_step peer metadata)\<^sup>*\<^sup>* ?b
      (?b\<lparr>bf_up := (bf_up ?b)\<lparr>ch_queue := []\<rparr>, up_taken := up_taken ?b @ ch_queue (bf_up ?b)\<rparr>)"
    using Cons by (intro Cons.hyps(1)) simp_all
  ultimately show ?case
    by (simp add: Cons.hyps(2) [symmetric] converse_rtranclp_into_rtranclp)
qed

lemma take_all_down:
  assumes "ch_receiver_alive (bf_down b)"
  shows "(buffered_step peer metadata)\<^sup>*\<^sup>* b
    (b\<lparr>bf_down := (bf_down b)\<lparr>ch_queue := []\<rparr>, down_taken := down_taken b @ ch_queue (bf_down b)\<rparr>)"
  using assms
proof (induction "ch_queue (bf_down b)" arbitrary: b)
  case Nil
  then have "b\<lparr>bf_down := (bf_down b)\<lparr>ch_queue := []\<rparr>, down_taken := down_taken b @ ch_queue (bf_down b)\<rparr> = b" by simp
  then show ?case by simp
next
  case (Cons frame rest)
  let ?b = "b\<lparr>bf_down := (bf_down b)\<lparr>ch_queue := rest\<rparr>, down_taken := down_taken b @ [frame]\<rparr>"
  have "buffered_step peer metadata b ?b"
    using Cons by (intro buffered_step.takes_down) (simp_all add: try_recv_def Cons.hyps(2) [symmetric])
  moreover have "(buffered_step peer metadata)\<^sup>*\<^sup>* ?b
      (?b\<lparr>bf_down := (bf_down ?b)\<lparr>ch_queue := []\<rparr>, down_taken := down_taken ?b @ ch_queue (bf_down ?b)\<rparr>)"
    using Cons by (intro Cons.hyps(1)) simp_all
  ultimately show ?case
    by (simp add: Cons.hyps(2) [symmetric] converse_rtranclp_into_rtranclp)
qed

text \<open>The upstream, once called, can read all the inbound pump has read, whatever the outbound pump does.\<close>

lemma up_flushes:
  assumes inv: "buffered_inv peer metadata b" and run: "running (bf_pumps b)"
    and called: "outbound_at (bf_pumps b) \<noteq> Calling" and alive: "ch_receiver_alive (bf_up b)"
  shows "\<exists>c. (buffered_step peer metadata)\<^sup>*\<^sup>* b c \<and> up_taken c = read_up (bf_pumps b) \<and>
    read_up (bf_pumps c) = read_up (bf_pumps b) \<and> read_down (bf_pumps c) = read_down (bf_pumps b) \<and>
    running (bf_pumps c) \<and> ch_receiver_alive (bf_down c) = ch_receiver_alive (bf_down b)"
proof -
  let ?p = "bf_pumps b"
  let ?c = "b\<lparr>bf_up := (bf_up b)\<lparr>ch_queue := []\<rparr>, up_taken := up_taken b @ ch_queue (bf_up b)\<rparr>"
  have c: "(buffered_step peer metadata)\<^sup>*\<^sup>* b ?c" using called alive by (rule take_all_up)
  have sent: "sent_up ?p = up_taken b @ ch_queue (bf_up b)" and cap: "ch_capacity (bf_up b) = STREAM_BUFFER"
    using inv alive by (simp_all add: buffered_inv_def pipe_ok_def)
  have read: "read_up ?p = sent_up ?p @ in_flight_up (inbound_at ?p)"
    using inv run by (simp add: buffered_inv_def pumps_inv_def running_def relay_running)
  show ?thesis
  proof (cases "inbound_at ?p")
    case (SendingUp req)
    let ?ch = "(bf_up b)\<lparr>ch_queue := [req]\<rparr>"
    let ?d = "?c\<lparr>bf_pumps := pump_step peer metadata UpAccepted ?p, bf_up := ?ch\<rparr>"
    let ?e = "?d\<lparr>bf_up := (bf_up ?d)\<lparr>ch_queue := []\<rparr>, up_taken := up_taken ?d @ ch_queue (bf_up ?d)\<rparr>"
    have "buffered_step peer metadata ?c ?d"
      using buffered_step.sends_up [of ?c req ?ch peer metadata] run SendingUp alive cap
      by (simp add: try_send_def STREAM_BUFFER_def)
    moreover have "(buffered_step peer metadata)\<^sup>*\<^sup>* ?d ?e"
      using called alive run SendingUp by (intro take_all_up) (simp_all add: up_accepted)
    ultimately have "(buffered_step peer metadata)\<^sup>*\<^sup>* b ?e"
      using c by (meson rtranclp.rtrancl_into_rtrancl rtranclp_trans)
    moreover have "running (pump_step peer metadata UpAccepted ?p)"
      using run SendingUp by (simp add: up_accepted) (simp add: running_def pump_ended_def)
    ultimately show ?thesis
      using run SendingUp sent read by (intro exI [of _ ?e]) (simp add: up_accepted)
  qed (use c run sent read in \<open>auto intro!: exI [of _ ?c]\<close>)
qed

lemma down_flushes:
  assumes inv: "buffered_inv peer metadata b" and run: "running (bf_pumps b)" and alive: "ch_receiver_alive (bf_down b)"
  shows "\<exists>c. (buffered_step peer metadata)\<^sup>*\<^sup>* b c \<and> down_taken c = read_down (bf_pumps b) \<and> up_taken c = up_taken b \<and>
    read_up (bf_pumps c) = read_up (bf_pumps b) \<and> read_down (bf_pumps c) = read_down (bf_pumps b)"
proof -
  let ?p = "bf_pumps b"
  let ?c = "b\<lparr>bf_down := (bf_down b)\<lparr>ch_queue := []\<rparr>, down_taken := down_taken b @ ch_queue (bf_down b)\<rparr>"
  have c: "(buffered_step peer metadata)\<^sup>*\<^sup>* b ?c" using alive by (rule take_all_down)
  have sent: "sent_down ?p = down_taken b @ ch_queue (bf_down b)" and cap: "ch_capacity (bf_down b) = STREAM_BUFFER"
    using inv alive by (simp_all add: buffered_inv_def pipe_ok_def)
  have read: "read_down ?p = sent_down ?p @ in_flight_down (outbound_at ?p)"
    using inv run by (simp add: buffered_inv_def pumps_inv_def running_def relay_running)
  show ?thesis
  proof (cases "in_flight_down (outbound_at ?p)")
    case Nil
    with c sent read show ?thesis by (intro exI [of _ ?c]) simp
  next
    case (Cons frame rest)
    then have fl: "in_flight_down (outbound_at ?p) = [frame]" by (cases "outbound_at ?p") auto
    let ?ch = "(bf_down b)\<lparr>ch_queue := [frame]\<rparr>"
    let ?d = "?c\<lparr>bf_pumps := pump_step peer metadata DownAccepted ?p, bf_down := ?ch\<rparr>"
    let ?e = "?d\<lparr>bf_down := (bf_down ?d)\<lparr>ch_queue := []\<rparr>, down_taken := down_taken ?d @ ch_queue (bf_down ?d)\<rparr>"
    have "buffered_step peer metadata ?c ?d"
      using buffered_step.sends_down [of ?c frame ?ch peer metadata] run fl alive cap
      by (simp add: try_send_def STREAM_BUFFER_def)
    moreover have "(buffered_step peer metadata)\<^sup>*\<^sup>* ?d ?e" using alive by (intro take_all_down) simp
    ultimately have "(buffered_step peer metadata)\<^sup>*\<^sup>* b ?e"
      using c by (meson rtranclp.rtrancl_into_rtrancl rtranclp_trans)
    with run fl sent read show ?thesis by (intro exI [of _ ?e]) (simp add: down_accepted)
  qed
qed

subsection \<open>Properties\<close>

text \<open>Forgetting the channels gives a run of the pumps.\<close>

lemma buffered_is_run: "buffered_reachable peer metadata b \<Longrightarrow> \<exists>events. bf_pumps b = pump_run peer metadata events"
proof (induction rule: buffered_reachable.induct)
  case buffered_init
  show ?case by (intro exI [of _ "[]"]) (simp add: buffered_start_def)
next
  case (buffered_next b b')
  then obtain events where "bf_pumps b = pump_run peer metadata events" by blast
  moreover have "bf_pumps b' = bf_pumps b \<or> (\<exists>e. bf_pumps b' = pump_step peer metadata e (bf_pumps b))"
    using buffered_next.hyps(2) by cases auto
  moreover have "pump_step peer metadata e (pump_run peer metadata events) = pump_run peer metadata (events @ [e])" for e
    by simp
  ultimately show ?case by metis
qed

text \<open>
  Claim C16. A stream is relayed with back-pressure, through bounded memory: the proxy runs the pumps of
  \<open>Subscriber\<close>, each channel holds at most 64 frames, what a side has been handed is a prefix of what was read
  from the other, and while a side is there the proxy has read at most 65 frames of the other that it has
  not handed over.
\<close>

theorem streams_bounded:
  assumes "buffered_reachable peer metadata b"
  shows "(\<exists>events. bf_pumps b = pump_run peer metadata events) \<and>
    length (ch_queue (bf_up b)) \<le> 64 \<and> length (ch_queue (bf_down b)) \<le> 64 \<and>
    prefix (up_taken b) (read_up (bf_pumps b)) \<and> prefix (down_taken b) (read_down (bf_pumps b)) \<and>
    (ch_receiver_alive (bf_up b) \<longrightarrow> length (read_up (bf_pumps b)) \<le> length (up_taken b) + 65) \<and>
    (ch_receiver_alive (bf_down b) \<longrightarrow> length (read_down (bf_pumps b)) \<le> length (down_taken b) + 65)"
proof -
  let ?p = "bf_pumps b"
  have inv: "buffered_inv peer metadata b" using assms by (rule buffered_reachable_inv)
  then have up: "pipe_ok (sent_up ?p) (bf_up b) (up_taken b)" and down: "pipe_ok (sent_down ?p) (bf_down b) (down_taken b)"
    and relay: "relay_inv ?p" by (simp_all add: buffered_inv_def pumps_inv_def)
  have "length (read_up ?p) \<le> length (up_taken b) + 65" if "ch_receiver_alive (bf_up b)"
    using pipe_behind [OF up that] relay_gap_up [OF relay, THEN conjunct2] by (simp add: STREAM_BUFFER_def)
  moreover have "length (read_down ?p) \<le> length (down_taken b) + 65" if "ch_receiver_alive (bf_down b)"
    using pipe_behind [OF down that] relay_gap_down [OF relay, THEN conjunct2] by (simp add: STREAM_BUFFER_def)
  moreover have "prefix (up_taken b) (read_up ?p)" "prefix (down_taken b) (read_down ?p)"
    using pipe_prefix [OF up] pipe_prefix [OF down] relay_gap_up [OF relay] relay_gap_down [OF relay]
    by (blast intro: prefix_order.trans)+
  ultimately show ?thesis
    using buffered_is_run [OF assms] up down by (simp add: pipe_ok_def STREAM_BUFFER_def)
qed

text \<open>
  Claim C15. A stream never wedges: from any reachable state in which both pumps run and both sides are there, in
  whatever state the two channels and the call to the upstream are, the stream can go on, without reading
  another frame, until each side has been handed every frame read from the other.
\<close>

theorem streams_never_wedge:
  assumes "buffered_reachable peer metadata b" and "running (bf_pumps b)"
    and "ch_receiver_alive (bf_up b)" and "ch_receiver_alive (bf_down b)"
  shows "\<exists>c. (buffered_step peer metadata)\<^sup>*\<^sup>* b c \<and>
    up_taken c = read_up (bf_pumps b) \<and> read_up (bf_pumps c) = read_up (bf_pumps b) \<and>
    down_taken c = read_down (bf_pumps b) \<and> read_down (bf_pumps c) = read_down (bf_pumps b)"
proof -
  let ?b = "b\<lparr>bf_pumps := pump_step peer metadata CallUpstream (bf_pumps b)\<rparr>"
  have step: "buffered_step peer metadata b ?b" by (rule buffered_step.other) simp
  have called: "outbound_at (bf_pumps ?b) \<noteq> Calling" and run: "running (bf_pumps ?b)"
    and same: "read_up (bf_pumps ?b) = read_up (bf_pumps b)" "read_down (bf_pumps ?b) = read_down (bf_pumps b)"
    using assms(2)
    by (cases "outbound_at (bf_pumps b)"; cases "inbound_at (bf_pumps b)";
        simp add: pump_step_def running_def Let_def pump_ended_def)+
  have inv: "buffered_inv peer metadata b" using assms(1) by (rule buffered_reachable_inv)
  then have inv': "buffered_inv peer metadata ?b" using step by (blast intro: buffered_step_inv)
  obtain c where c: "(buffered_step peer metadata)\<^sup>*\<^sup>* ?b c" "up_taken c = read_up (bf_pumps b)"
    "read_up (bf_pumps c) = read_up (bf_pumps b)" "read_down (bf_pumps c) = read_down (bf_pumps b)"
    "running (bf_pumps c)" "ch_receiver_alive (bf_down c)"
    using up_flushes [OF inv' run called] assms(3,4) same by auto
  have "buffered_inv peer metadata c"
    using c(1) inv' by (induction rule: rtranclp_induct) (auto intro: buffered_step_inv)
  from down_flushes [OF this c(5,6)] c obtain d where d: "(buffered_step peer metadata)\<^sup>*\<^sup>* c d"
    "down_taken d = read_down (bf_pumps b)" "up_taken d = read_up (bf_pumps b)"
    "read_up (bf_pumps d) = read_up (bf_pumps b)" "read_down (bf_pumps d) = read_down (bf_pumps b)" by auto
  have "(buffered_step peer metadata)\<^sup>*\<^sup>* b d"
    using step c(1) d(1) by (meson converse_rtranclp_into_rtranclp rtranclp_trans)
  with d show ?thesis by blast
qed

text \<open>A stream on which the client's first frame was read and not yet sent on, before the upstream was called.\<close>

definition frame_read :: "(unit, unit, unit) buffered" where
  "frame_read = buffered_start\<lparr>bf_pumps := pump_run None [] [ClientFrame
     \<lparr>sp_subscription = ''s'', sp_ack_ids = [''a''], sp_rest = ()\<rparr>]\<rparr>"

lemma frame_read_reachable: "buffered_reachable None [] frame_read"
proof -
  have "buffered_step None [] buffered_start frame_read"
    using buffered_step.other [of "ClientFrame \<lparr>sp_subscription = ''s'', sp_ack_ids = [''a''], sp_rest = ()\<rparr>" None "[]" buffered_start]
    by (simp add: frame_read_def buffered_start_def)
  with buffered_reachable.buffered_init show ?thesis by (rule buffered_reachable.buffered_next)
qed

lemma frame_read_simps:
  "running (bf_pumps frame_read)" "ch_receiver_alive (bf_up frame_read)" "ch_receiver_alive (bf_down frame_read)"
  "read_up (bf_pumps frame_read) = [\<lparr>sp_subscription = ''s'', sp_ack_ids = [''a''], sp_rest = ()\<rparr>]"
  "read_down (bf_pumps frame_read) = []" "up_taken frame_read = []"
  by (simp_all add: frame_read_def buffered_start_def pumps_start_def channel_new_def pump_step_def running_def
      pump_ended_def tap_client_frame_def Let_def)

theorem streams_bounded_witness:
  "length (ch_queue (bf_up frame_read)) \<le> 64 \<and> length (read_up (bf_pumps frame_read)) \<le> length (up_taken frame_read) + 65"
  using streams_bounded [OF frame_read_reachable] frame_read_simps(2) by blast

theorem streams_never_wedge_witness:
  "\<exists>c. (buffered_step None [])\<^sup>*\<^sup>* frame_read c \<and>
    up_taken c = [\<lparr>sp_subscription = ''s'', sp_ack_ids = [''a''], sp_rest = ()\<rparr>] \<and> down_taken c = []"
  using streams_never_wedge [OF frame_read_reachable frame_read_simps(1-3)] unfolding frame_read_simps by blast

end
