(* ===== verification/System.thy ===== *)
theory System
  imports Client Observer
begin

text \<open>
  The whole of the monitoring side as one system: the state-owning task (\<^verbatim>\<open>src/observe/state.rs\<close>), the
  server that streams its snapshots (\<^verbatim>\<open>src/monitor/server.rs\<close>) and any number of interfaces, each with its
  supervised connection (\<^verbatim>\<open>src/monitor/client.rs\<close>). All of them take steps in any order.
\<close>

subsection \<open>One viewer\<close>

text \<open>
  What the server and the transport hold for one connection: the number of the snapshot the connection's
  cursor on the watch channel has seen last (0 before the first), and the encoded snapshots on their way,
  each with its number.
\<close>

record stream_session =
  se_seen :: nat
  se_flight :: "(StateSnapshot \<times> nat) list"

text \<open>\<open>vw_shown\<close> records the numbers of the snapshots that reached the interface.\<close>

record viewer =
  vw_link :: link
  vw_session :: "stream_session option"
  vw_shown :: "nat list"

definition viewer_start :: viewer where
  "viewer_start = \<lparr>vw_link = link_start, vw_session = None, vw_shown = []\<rparr>"

fun local_event :: "link_event \<Rightarrow> bool" where
  "local_event (SnapshotArrived snapshot now) = False"
| "local_event Subscribed = False"
| "local_event _ = True"

definition connection_up :: "link \<Rightarrow> bool" where
  "connection_up l \<longleftrightarrow> link_at l = Subscribing \<or> link_at l = Pumping"

text \<open>
  The steps of a viewer, \<open>ss\<close> being the values of the watch channel so far. A \<open>WatchStream\<close> yields the
  current value first, and then the newest one whenever some have been sent since, so a slow connection
  skips values.
\<close>

inductive viewer_step :: "instant \<Rightarrow> AppState list \<Rightarrow> viewer \<Rightarrow> viewer \<Rightarrow> bool" for lo ss where
  own: "local_event e \<Longrightarrow> l = link_step lo e (vw_link v) \<Longrightarrow>
    viewer_step lo ss v (v\<lparr>vw_link := l, vw_session := (if connection_up l then vw_session v else None)\<rparr>)"
| opens: "link_at (vw_link v) = Subscribing \<Longrightarrow> vw_session v = None \<Longrightarrow>
    viewer_step lo ss v (v\<lparr>vw_session := Some \<lparr>se_seen = 0, se_flight = []\<rparr>\<rparr>)"
| subscribed: "vw_session v = Some se \<Longrightarrow> viewer_step lo ss v (v\<lparr>vw_link := link_step lo Subscribed (vw_link v)\<rparr>)"
| yields: "vw_session v = Some se \<Longrightarrow> se_seen se < length ss \<Longrightarrow>
    viewer_step lo ss v (v\<lparr>vw_session := Some \<lparr>se_seen = length ss,
      se_flight = se_flight se @ [(to_wire (last ss) sent, length ss)]\<rparr>\<rparr>)"
| arrives: "link_at (vw_link v) = Pumping \<Longrightarrow> ui_alive (vw_link v) \<Longrightarrow> vw_session v = Some se \<Longrightarrow>
    se_flight se = (w, n) # rest \<Longrightarrow>
    viewer_step lo ss v (v\<lparr>vw_link := link_step lo (SnapshotArrived w later) (vw_link v),
      vw_session := Some (se\<lparr>se_flight := rest\<rparr>), vw_shown := vw_shown v @ [n]\<rparr>)"
| arrives_late: "link_at (vw_link v) = Pumping \<Longrightarrow> \<not> ui_alive (vw_link v) \<Longrightarrow> vw_session v = Some se \<Longrightarrow>
    se_flight se = (w, n) # rest \<Longrightarrow>
    viewer_step lo ss v (v\<lparr>vw_link := link_step lo (SnapshotArrived w later) (vw_link v), vw_session := None\<rparr>)"

subsection \<open>The system\<close>

record system =
  sy_monitor :: observer
  sy_viewers :: "nat \<Rightarrow> viewer"

definition sys_start :: "nat \<Rightarrow> instant \<Rightarrow> system" where
  "sys_start recent_buffer t0 = \<lparr>sy_monitor = observer_start recent_buffer t0, sy_viewers = (\<lambda>_. viewer_start)\<rparr>"

inductive sys_step :: "nat \<Rightarrow> instant \<Rightarrow> system \<Rightarrow> system \<Rightarrow> bool" for recent_buffer lo where
  monitor_step: "observer_step recent_buffer (sy_monitor s) ob \<Longrightarrow> sys_step recent_buffer lo s (s\<lparr>sy_monitor := ob\<rparr>)"
| viewer_moves: "viewer_step lo (snapshots (sy_monitor s)) (sy_viewers s i) v \<Longrightarrow>
    sys_step recent_buffer lo s (s\<lparr>sy_viewers := (sy_viewers s)(i := v)\<rparr>)"

inductive sys_reachable :: "nat \<Rightarrow> instant \<Rightarrow> system \<Rightarrow> bool" for recent_buffer lo where
  sys_init: "sys_reachable recent_buffer lo (sys_start recent_buffer t0)"
| sys_next: "sys_reachable recent_buffer lo s \<Longrightarrow> sys_step recent_buffer lo s s' \<Longrightarrow> sys_reachable recent_buffer lo s'"

subsection \<open>The invariant\<close>

definition is_snapshot :: "AppState list \<Rightarrow> StateSnapshot \<Rightarrow> nat \<Rightarrow> bool" where
  "is_snapshot ss w n \<longleftrightarrow> 0 < n \<and> n \<le> length ss \<and> (\<exists>sent. w = to_wire (ss ! (n - 1)) sent)"

definition flight_of :: "viewer \<Rightarrow> (StateSnapshot \<times> nat) list" where
  "flight_of v = (case vw_session v of None \<Rightarrow> [] | Some se \<Rightarrow> se_flight se)"

definition numbers_of :: "viewer \<Rightarrow> nat list" where
  "numbers_of v = vw_shown v @ map snd (flight_of v)"

text \<open>The cursor of an open connection stands at the last snapshot yielded to it.\<close>

definition cursor_ok :: "AppState list \<Rightarrow> viewer \<Rightarrow> bool" where
  "cursor_ok ss v \<longleftrightarrow> (case vw_session v of None \<Rightarrow> True
     | Some se \<Rightarrow> se_seen se \<le> length ss \<and>
         (if se_seen se = 0 then se_flight se = [] else numbers_of v \<noteq> [] \<and> last (numbers_of v) = se_seen se))"

definition viewer_inv :: "instant \<Rightarrow> AppState list \<Rightarrow> viewer \<Rightarrow> bool" where
  "viewer_inv lo ss v \<longleftrightarrow>
     link_inv lo (vw_link v) \<and>
     (vw_session v \<noteq> None \<longrightarrow> connection_up (vw_link v)) \<and>
     (link_at (vw_link v) = Pumping \<longrightarrow> vw_session v \<noteq> None) \<and>
     sorted (numbers_of v) \<and> (\<forall>n \<in> set (numbers_of v). n \<le> length ss) \<and>
     (\<forall>(w, n) \<in> set (flight_of v). is_snapshot ss w n) \<and>
     list_all2 (\<lambda>r n. is_snapshot ss (fst r) n) (received (vw_link v)) (vw_shown v) \<and>
     cursor_ok ss v"

lemma is_snapshot_append: "is_snapshot ss w n \<Longrightarrow> is_snapshot (ss @ ts) w n"
  by (auto simp: is_snapshot_def nth_append)

lemma viewer_inv_append: "viewer_inv lo ss v \<Longrightarrow> viewer_inv lo (ss @ ts) v"
  unfolding viewer_inv_def cursor_ok_def
  by (auto intro: is_snapshot_append elim!: list_all2_mono split: option.splits)

lemma viewer_start_inv: "viewer_inv lo ss viewer_start"
  by (simp add: viewer_inv_def viewer_start_def link_start_inv numbers_of_def flight_of_def cursor_ok_def)
    (simp add: link_start_def)

text \<open>Events of the link that bring no snapshot leave what was received as it is.\<close>

lemma received_local: "local_event e \<or> e = Subscribed \<Longrightarrow> received (link_step lo e l) = received l"
  by (cases e) (simp_all add: connection_over_def Let_def)

lemma pumping_local: "local_event e \<Longrightarrow> link_at (link_step lo e l) = Pumping \<Longrightarrow> link_at l = Pumping"
  by (cases e) (auto simp: connection_over_def Let_def split: if_splits)

lemma link_at_local:
  "local_event e \<Longrightarrow> connection_up (link_step lo e l) \<Longrightarrow> \<not> connection_up l \<Longrightarrow> link_at (link_step lo e l) = Subscribing"
  by (cases e) (auto simp: connection_over_def connection_up_def Let_def split: if_splits)

lemma viewer_link_inv: "viewer_inv lo ss v \<Longrightarrow> link_inv lo (link_step lo e (vw_link v))"
  unfolding viewer_inv_def by (blast intro: link_step_inv)

text \<open>Losing the session only drops what was on its way.\<close>

lemma session_drop: "viewer_inv lo ss v \<Longrightarrow> link_inv lo l \<Longrightarrow> received l = received (vw_link v) \<Longrightarrow>
    link_at l \<noteq> Pumping \<Longrightarrow> viewer_inv lo ss (v\<lparr>vw_link := l, vw_session := None\<rparr>)"
  by (auto simp: viewer_inv_def cursor_ok_def numbers_of_def flight_of_def sorted_append)

lemma cursor_ok_link [simp]: "cursor_ok ss (v\<lparr>vw_link := l\<rparr>) = cursor_ok ss v"
  by (simp add: cursor_ok_def numbers_of_def flight_of_def split: option.splits)

lemma session_kept: "viewer_inv lo ss v \<Longrightarrow> link_inv lo l \<Longrightarrow> received l = received (vw_link v) \<Longrightarrow>
    (vw_session v \<noteq> None \<longrightarrow> connection_up l) \<Longrightarrow> (link_at l = Pumping \<longrightarrow> vw_session v \<noteq> None) \<Longrightarrow>
    viewer_inv lo ss (v\<lparr>vw_link := l\<rparr>)"
  by (auto simp: viewer_inv_def numbers_of_def flight_of_def)

lemma viewer_inv_own:
  assumes inv: "viewer_inv lo ss v" and e: "local_event e" and l: "l = link_step lo e (vw_link v)"
  shows "viewer_inv lo ss (v\<lparr>vw_link := l, vw_session := (if connection_up l then vw_session v else None)\<rparr>)"
proof -
  have link: "link_inv lo l" "received l = received (vw_link v)"
    using inv e by (simp_all add: l viewer_link_inv received_local)
  show ?thesis
  proof (cases "connection_up l")
    case True
    have "viewer_inv lo ss (v\<lparr>vw_link := l\<rparr>)"
      using inv True pumping_local [OF e, of lo "vw_link v"] link
      by (intro session_kept) (auto simp: l viewer_inv_def)
    with True show ?thesis by simp
  next
    case False
    then have "viewer_inv lo ss (v\<lparr>vw_link := l, vw_session := None\<rparr>)"
      using inv link by (intro session_drop) (auto simp: connection_up_def)
    with False show ?thesis by simp
  qed
qed

lemma viewer_inv_yields:
  assumes inv: "viewer_inv lo ss v" and se: "vw_session v = Some se" and new: "se_seen se < length ss"
  shows "viewer_inv lo ss (v\<lparr>vw_session := Some \<lparr>se_seen = length ss,
      se_flight = se_flight se @ [(to_wire (last ss) sent, length ss)]\<rparr>\<rparr>)"
proof -
  have "is_snapshot ss (to_wire (last ss) sent) (length ss)"
    using new by (cases ss) (auto simp: is_snapshot_def last_conv_nth)
  then show ?thesis
    using inv se new by (auto simp: viewer_inv_def cursor_ok_def numbers_of_def flight_of_def sorted_append)
qed

lemma viewer_inv_arrives:
  assumes inv: "viewer_inv lo ss v" and se: "vw_session v = Some se" and flight: "se_flight se = (w, n) # rest"
    and link: "link_at (vw_link v) = Pumping" "ui_alive (vw_link v)"
  shows "viewer_inv lo ss (v\<lparr>vw_link := link_step lo (SnapshotArrived w later) (vw_link v),
      vw_session := Some (se\<lparr>se_flight := rest\<rparr>), vw_shown := vw_shown v @ [n]\<rparr>)"
proof -
  have "link_inv lo (link_step lo (SnapshotArrived w later) (vw_link v))"
    using inv by (rule viewer_link_inv)
  then show ?thesis
    using assms by (auto simp: viewer_inv_def cursor_ok_def numbers_of_def flight_of_def sorted_append
      list_all2_appendI connection_up_def split: if_splits)
qed

lemma viewer_step_inv: "viewer_step lo ss v v' \<Longrightarrow> viewer_inv lo ss v \<Longrightarrow> viewer_inv lo ss v'"
proof (induction rule: viewer_step.induct)
  case (own e l v)
  then show ?case by (blast intro: viewer_inv_own)
next
  case (opens v)
  then show ?case by (auto simp: viewer_inv_def cursor_ok_def numbers_of_def flight_of_def connection_up_def)
next
  case (subscribed v se)
  then have "link_inv lo (link_step lo Subscribed (vw_link v))"
    by (blast intro: viewer_link_inv)
  with subscribed show ?case
    by (intro session_kept) (auto simp: viewer_inv_def connection_up_def received_local)
next
  case (yields v se sent)
  then show ?case by (blast intro: viewer_inv_yields)
next
  case (arrives v se w n rest later)
  then show ?case by (blast intro: viewer_inv_arrives)
next
  case (arrives_late v se w n rest later)
  have "link_inv lo (link_step lo (SnapshotArrived w later) (vw_link v))"
    using arrives_late.prems by (rule viewer_link_inv)
  with arrives_late show ?case
    by (intro session_drop) (simp_all add: connection_over_def Let_def)
qed

lemma snapshots_grow: "observer_step cap ob ob' \<Longrightarrow> \<exists>ts. snapshots ob' = snapshots ob @ ts"
  by (erule observer_stepE) (auto simp: produce_def try_send_def fold_one_def end_burst_def stop_def Let_def)

definition sys_inv :: "nat \<Rightarrow> instant \<Rightarrow> system \<Rightarrow> bool" where
  "sys_inv recent_buffer lo s \<longleftrightarrow> observer_reachable recent_buffer (sy_monitor s) \<and>
     (\<forall>i. viewer_inv lo (snapshots (sy_monitor s)) (sy_viewers s i))"

lemma sys_step_inv: "sys_step cap lo s s' \<Longrightarrow> sys_inv cap lo s \<Longrightarrow> sys_inv cap lo s'"
proof (induction rule: sys_step.induct)
  case (monitor_step s ob)
  from snapshots_grow [OF this(1)] monitor_step show ?case
    by (auto simp: sys_inv_def viewer_inv_append intro: observer_reachable.step)
next
  case (viewer_moves s i v)
  then show ?case by (auto simp: sys_inv_def intro: viewer_step_inv)
qed

lemma sys_reachable_inv: "sys_reachable cap lo s \<Longrightarrow> sys_inv cap lo s"
proof (induction rule: sys_reachable.induct)
  case (sys_init t0)
  show ?case by (simp add: sys_inv_def sys_start_def observer_reachable.start viewer_start_inv)
next
  case (sys_next s s')
  then show ?case by (blast intro: sys_step_inv)
qed

subsection \<open>What an interface shows\<close>

text \<open>The successive values of the watch channel: the empty state, then folds of longer and longer prefixes.\<close>

definition stage :: "nat \<Rightarrow> timed_obs list \<Rightarrow> nat \<Rightarrow> AppState" where
  "stage recent_buffer es m = (case m of 0 \<Rightarrow> default_state | Suc n \<Rightarrow> view_of recent_buffer (take n es))"

lemma sorted_nth_map:
  "sorted ks \<Longrightarrow> sorted (ns :: nat list) \<Longrightarrow> \<forall>n \<in> set ns. 0 < n \<and> n \<le> length ks \<Longrightarrow> sorted (map (\<lambda>n. ks ! (n - 1)) ns)"
proof (induction ns)
  case (Cons n ns)
  then have "ks ! (n - 1) \<le> ks ! (n' - 1)" if "n' \<in> set ns" for n'
    using that by (auto intro!: sorted_nth_mono)
  with Cons show ?case by auto
qed simp

lemma stages_of_snapshots:
  assumes "observer_reachable cap ob"
  shows "\<exists>es ks. prefix (map fst es) (accepted ob) \<and> sorted (map snd es) \<and> sorted ks \<and>
    snapshots ob = map (stage cap es) ks"
proof -
  have inv: "observer_inv cap ob" using assms by (rule observer_reachable_inv)
  obtain ns where ns: "sorted ns" "snapshots ob = default_state # map (\<lambda>n. view_of cap (take n (folded ob))) ns"
    using reachable_in_order [OF assms] by (auto simp: in_order_def)
  have "prefix (map fst (folded ob)) (accepted ob)" "sorted (map snd (folded ob))"
    using inv by (auto simp: observer_inv_def intro: prefixI [OF sym])
  moreover have "sorted (0 # map Suc ns)" using ns(1) by (simp add: sorted_map sorted_wrt_map)
  moreover have "snapshots ob = map (stage cap (folded ob)) (0 # map Suc ns)"
    by (simp add: ns(2) stage_def)
  ultimately show ?thesis by blast
qed

lemma shown_in_order:
  assumes "sys_inv cap lo s"
  shows "\<exists>es ms. prefix (map fst es) (accepted (sy_monitor s)) \<and> sorted (map snd es) \<and> sorted ms \<and>
    list_all2 (\<lambda>r m. \<exists>sent. fst r = to_wire (stage cap es m) sent) (received (vw_link (sy_viewers s i))) ms"
proof -
  let ?v = "sy_viewers s i" and ?ss = "snapshots (sy_monitor s)"
  have v: "viewer_inv lo ?ss ?v" using assms by (simp add: sys_inv_def)
  obtain es ks where es: "prefix (map fst es) (accepted (sy_monitor s))" "sorted (map snd es)" "sorted ks"
    and ks: "?ss = map (stage cap es) ks"
    using stages_of_snapshots assms unfolding sys_inv_def by blast
  have shown: "list_all2 (\<lambda>r n. is_snapshot ?ss (fst r) n) (received (vw_link ?v)) (vw_shown ?v)"
    and "sorted (vw_shown ?v)"
    using v by (simp_all add: viewer_inv_def numbers_of_def sorted_append)
  moreover from shown have "\<forall>n \<in> set (vw_shown ?v). 0 < n \<and> n \<le> length ks"
    by (auto simp: is_snapshot_def ks list_all2_conv_all_nth in_set_conv_nth)
  ultimately have "sorted (map (\<lambda>n. ks ! (n - 1)) (vw_shown ?v))"
    using es(3) by (blast intro: sorted_nth_map)
  moreover have "list_all2 (\<lambda>r m. \<exists>sent. fst r = to_wire (stage cap es m) sent) (received (vw_link ?v))
      (map (\<lambda>n. ks ! (n - 1)) (vw_shown ?v))"
    unfolding list_all2_map2 using shown
    by (rule list_all2_mono) (auto simp: is_snapshot_def ks)
  ultimately show ?thesis using es by blast
qed

subsection \<open>Every interface catches up\<close>

lemma viewer_run_inv: "(viewer_step lo ss)\<^sup>*\<^sup>* v v' \<Longrightarrow> viewer_inv lo ss v \<Longrightarrow> viewer_inv lo ss v'"
  by (induction rule: rtranclp_induct) (auto intro: viewer_step_inv)

definition pumping :: "viewer \<Rightarrow> bool" where
  "pumping v \<longleftrightarrow> link_at (vw_link v) = Pumping \<and> ui_alive (vw_link v) \<and> vw_session v \<noteq> None"

lemma subscribing_pumps:
  assumes "link_at (vw_link v) = Subscribing" and "ui_alive (vw_link v)"
  shows "\<exists>v'. (viewer_step lo ss)\<^sup>*\<^sup>* v v' \<and> pumping v'"
proof -
  have pump: "\<exists>v'. (viewer_step lo ss)\<^sup>*\<^sup>* u v' \<and> pumping v'"
    if "vw_session u = Some se" "link_at (vw_link u) = Subscribing" "ui_alive (vw_link u)" for u se
    using viewer_step.subscribed [OF that(1), of lo ss] that
    by (intro exI [of _ "u\<lparr>vw_link := link_step lo Subscribed (vw_link u)\<rparr>"]) (auto simp: pumping_def)
  show ?thesis
  proof (cases "vw_session v")
    case None
    let ?u = "v\<lparr>vw_session := Some \<lparr>se_seen = 0, se_flight = []\<rparr>\<rparr>"
    have "viewer_step lo ss v ?u" using assms(1) None by (rule viewer_step.opens)
    moreover have "\<exists>v'. (viewer_step lo ss)\<^sup>*\<^sup>* ?u v' \<and> pumping v'" using assms by (intro pump) simp_all
    ultimately show ?thesis by (blast intro: converse_rtranclp_into_rtranclp)
  qed (use pump assms in blast)
qed

lemma dialing_pumps:
  assumes "link_at (vw_link v) = Dialing" and "ui_alive (vw_link v)"
  shows "\<exists>v'. (viewer_step lo ss)\<^sup>*\<^sup>* v v' \<and> pumping v'"
proof -
  let ?l = "link_step lo Dialed (vw_link v)"
  let ?u = "v\<lparr>vw_link := ?l, vw_session := (if connection_up ?l then vw_session v else None)\<rparr>"
  have "viewer_step lo ss v ?u" by (rule viewer_step.own [of Dialed]) simp_all
  moreover have "\<exists>v'. (viewer_step lo ss)\<^sup>*\<^sup>* ?u v' \<and> pumping v'"
    using assms by (intro subscribing_pumps) simp_all
  ultimately show ?thesis by (blast intro: converse_rtranclp_into_rtranclp)
qed

lemma viewer_pumps:
  assumes inv: "viewer_inv lo ss v" and alive: "ui_alive (vw_link v)"
  shows "\<exists>v'. (viewer_step lo ss)\<^sup>*\<^sup>* v v' \<and> pumping v'"
proof (cases "link_at (vw_link v)")
  case Pumping
  with assms show ?thesis by (auto simp: pumping_def viewer_inv_def)
next
  case Backoff
  let ?l = "link_step lo BackoffElapsed (vw_link v)"
  let ?u = "v\<lparr>vw_link := ?l, vw_session := (if connection_up ?l then vw_session v else None)\<rparr>"
  have "viewer_step lo ss v ?u" by (rule viewer_step.own [of BackoffElapsed]) simp_all
  moreover have "\<exists>v'. (viewer_step lo ss)\<^sup>*\<^sup>* ?u v' \<and> pumping v'"
    using Backoff alive by (intro dialing_pumps) simp_all
  ultimately show ?thesis by (blast intro: converse_rtranclp_into_rtranclp)
next
  case Finished
  with assms show ?thesis by (simp add: viewer_inv_def link_inv_def)
qed (use alive in \<open>blast intro: dialing_pumps subscribing_pumps\<close>)+

lemma flight_lands:
  assumes "pumping v" and "vw_session v = Some se"
  shows "\<exists>v'. (viewer_step lo ss)\<^sup>*\<^sup>* v v' \<and> pumping v' \<and> vw_session v' = Some (se\<lparr>se_flight := []\<rparr>)"
  using assms
proof (induction "se_flight se" arbitrary: v se)
  case Nil
  then have "se\<lparr>se_flight := []\<rparr> = se" by simp
  with Nil show ?case by auto
next
  case (Cons wn rest)
  obtain w n where wn: "wn = (w, n)" by (cases wn)
  let ?u = "v\<lparr>vw_link := link_step lo (SnapshotArrived w 0) (vw_link v),
      vw_session := Some (se\<lparr>se_flight := rest\<rparr>), vw_shown := vw_shown v @ [n]\<rparr>"
  have "viewer_step lo ss v ?u"
    using Cons.prems Cons.hyps(2) by (intro viewer_step.arrives) (simp_all add: pumping_def wn)
  moreover have "\<exists>v'. (viewer_step lo ss)\<^sup>*\<^sup>* ?u v' \<and> pumping v' \<and>
      vw_session v' = Some (se\<lparr>se_flight := rest\<rparr>\<lparr>se_flight := []\<rparr>)"
    using Cons.prems by (intro Cons.hyps(1)) (simp_all add: pumping_def)
  ultimately show ?case by (auto intro: converse_rtranclp_into_rtranclp)
qed

text \<open>With nothing on its way and the cursor at the newest value, the interface shows that value.\<close>

lemma landed_shows_newest:
  assumes inv: "viewer_inv lo ss v" and se: "vw_session v = Some se" "se_flight se = []" "se_seen se = length ss"
    and "ss \<noteq> []"
  shows "\<exists>sent later. link_state (vw_link v) = from_wire lo (to_wire (last ss) sent) later"
proof -
  let ?rs = "received (vw_link v)"
  have nums: "vw_shown v \<noteq> []" "last (vw_shown v) = length ss"
    using inv se assms(5) by (simp_all add: viewer_inv_def cursor_ok_def numbers_of_def flight_of_def)
  have shown: "list_all2 (\<lambda>r n. is_snapshot ss (fst r) n) ?rs (vw_shown v)"
    using inv by (simp add: viewer_inv_def)
  with nums(1) have ne: "?rs \<noteq> []" by auto
  with shown nums have "is_snapshot ss (fst (last ?rs)) (length ss)"
    by (metis last_conv_nth length_greater_0_conv list_all2_lengthD list_all2_nthD diff_less zero_less_one)
  then obtain sent where "fst (last ?rs) = to_wire (last ss) sent"
    using assms(5) by (auto simp: is_snapshot_def last_conv_nth)
  moreover have "link_state (vw_link v) = from_wire lo (fst (last ?rs)) (snd (last ?rs))"
    using inv ne by (simp add: viewer_inv_def link_inv_def)
  ultimately show ?thesis by auto
qed

lemma viewer_catches_up:
  assumes inv: "viewer_inv lo ss v" and alive: "ui_alive (vw_link v)" and ne: "ss \<noteq> []"
  shows "\<exists>v' sent later. (viewer_step lo ss)\<^sup>*\<^sup>* v v' \<and>
    link_state (vw_link v') = from_wire lo (to_wire (last ss) sent) later"
proof -
  obtain u se where u: "(viewer_step lo ss)\<^sup>*\<^sup>* v u" "pumping u" "vw_session u = Some se"
    using viewer_pumps [OF inv alive] by (auto simp: pumping_def)
  obtain u' where u': "(viewer_step lo ss)\<^sup>*\<^sup>* u u'" "pumping u'" "vw_session u' = Some (se\<lparr>se_flight := []\<rparr>)"
    using flight_lands [OF u(2,3)] by blast
  have run: "(viewer_step lo ss)\<^sup>*\<^sup>* v u'" using u(1) u'(1) by simp
  have inv': "viewer_inv lo ss u'" using run inv by (rule viewer_run_inv)
  show ?thesis
  proof (cases "se_seen se = length ss")
    case True
    with landed_shows_newest [OF inv' u'(3)] ne run show ?thesis by auto
  next
    case False
    with inv' u'(3) have "se_seen se < length ss" by (simp add: viewer_inv_def cursor_ok_def)
    then have y: "viewer_step lo ss u' (u'\<lparr>vw_session := Some \<lparr>se_seen = length ss,
        se_flight = [(to_wire (last ss) 0, length ss)]\<rparr>\<rparr>)" (is "viewer_step lo ss u' ?w")
      using viewer_step.yields [OF u'(3), of ss lo 0] by simp
    have a: "viewer_step lo ss ?w (?w\<lparr>vw_link := link_step lo (SnapshotArrived (to_wire (last ss) 0) 0) (vw_link ?w),
        vw_session := Some (\<lparr>se_seen = length ss, se_flight = []\<rparr>), vw_shown := vw_shown ?w @ [length ss]\<rparr>)"
      (is "viewer_step lo ss ?w ?x")
      using viewer_step.arrives [of ?w _ "to_wire (last ss) 0" "length ss" "[]" lo ss 0] u'(2)
      by (simp add: pumping_def)
    have "(viewer_step lo ss)\<^sup>*\<^sup>* v ?x" using run y a by (meson rtranclp.rtrancl_into_rtrancl)
    moreover have "link_state (vw_link ?x) = from_wire lo (to_wire (last ss) 0) 0"
      using u'(2) by (simp add: pumping_def)
    ultimately show ?thesis by blast
  qed
qed

text \<open>A part's run is a run of the system.\<close>

lemma monitor_run:
  "(observer_step cap)\<^sup>*\<^sup>* (sy_monitor s) ob \<Longrightarrow> (sys_step cap lo)\<^sup>*\<^sup>* s (s\<lparr>sy_monitor := ob\<rparr>)"
proof (induction rule: rtranclp_induct)
  case (step ob ob')
  have "sys_step cap lo (s\<lparr>sy_monitor := ob\<rparr>) (s\<lparr>sy_monitor := ob\<rparr>\<lparr>sy_monitor := ob'\<rparr>)"
    using step.hyps(2) by (intro sys_step.monitor_step) simp
  with step.IH show ?case by simp
qed simp

lemma viewer_run:
  "(viewer_step lo (snapshots (sy_monitor s)))\<^sup>*\<^sup>* (sy_viewers s i) v \<Longrightarrow>
     (sys_step cap lo)\<^sup>*\<^sup>* s (s\<lparr>sy_viewers := (sy_viewers s)(i := v)\<rparr>)"
proof (induction rule: rtranclp_induct)
  case (step v v')
  let ?s = "s\<lparr>sy_viewers := (sy_viewers s)(i := v)\<rparr>"
  have "sys_step cap lo ?s (s\<lparr>sy_viewers := (sy_viewers s)(i := v')\<rparr>)"
    using sys_step.viewer_moves [of lo ?s i v' cap] step.hyps(2) by simp
  with step.IH show ?case by (rule rtranclp.rtrancl_into_rtrancl)
qed simp

lemma sys_run_inv: "(sys_step cap lo)\<^sup>*\<^sup>* s s' \<Longrightarrow> sys_inv cap lo s \<Longrightarrow> sys_inv cap lo s'"
  by (induction rule: rtranclp_induct) (auto intro: sys_step_inv)

lemma system_catches_up:
  assumes inv: "sys_inv cap lo s"
    and running: "phase_of (sy_monitor s) \<noteq> Stopped" "readers (sy_monitor s) > 0" "accepted (sy_monitor s) \<noteq> []"
    and alive: "ui_alive (vw_link (sy_viewers s i))"
  shows "\<exists>s' es sent later. (sys_step cap lo)\<^sup>*\<^sup>* s s' \<and> map fst es = accepted (sy_monitor s) \<and>
    link_state (vw_link (sy_viewers s' i)) = from_wire lo (to_wire (view_of cap es) sent) later"
proof -
  obtain ob es where ob: "(observer_step cap)\<^sup>*\<^sup>* (sy_monitor s) ob" "map fst es = accepted (sy_monitor s)"
    "last (snapshots ob) = view_of cap es"
    using catches_up [of cap "sy_monitor s"] inv running by (auto simp: sys_inv_def)
  let ?s = "s\<lparr>sy_monitor := ob\<rparr>"
  have run: "(sys_step cap lo)\<^sup>*\<^sup>* s ?s" using ob(1) by (rule monitor_run)
  then have inv': "sys_inv cap lo ?s" using inv by (rule sys_run_inv)
  then have v: "viewer_inv lo (snapshots ob) (sy_viewers s i)" and ne: "snapshots ob \<noteq> []"
    by (auto simp: sys_inv_def observer_inv_def dest: observer_reachable_inv)
  obtain v' sent later where v': "(viewer_step lo (snapshots ob))\<^sup>*\<^sup>* (sy_viewers s i) v'"
    "link_state (vw_link v') = from_wire lo (to_wire (view_of cap es) sent) later"
    using viewer_catches_up [OF v alive ne] ob(3) by metis
  then have "(sys_step cap lo)\<^sup>*\<^sup>* ?s (?s\<lparr>sy_viewers := (sy_viewers ?s)(i := v')\<rparr>)"
    by (intro viewer_run) simp
  with run have "(sys_step cap lo)\<^sup>*\<^sup>* s (?s\<lparr>sy_viewers := (sy_viewers ?s)(i := v')\<rparr>)" by simp
  with v'(2) ob(2) show ?thesis by fastforce
qed

subsection \<open>Properties\<close>

text \<open>
  Every interface watches one history, and never sees it run backwards: in any reachable state of the whole
  system there is one run \<open>es\<close> of the accepted observations, in order and at nondecreasing times, such that
  the snapshots this interface received on all its connections, reconnections included, are encodings of
  later and later stages of it, and what it shows is the decoding of the last one received (the empty state
  before the first).
\<close>

theorem views_only_advance:
  assumes "sys_reachable cap lo s" and "l = vw_link (sy_viewers s i)"
  shows "\<exists>es ms. prefix (map fst es) (accepted (sy_monitor s)) \<and> sorted (map snd es) \<and> sorted ms \<and>
    list_all2 (\<lambda>r m. \<exists>sent. fst r = to_wire (stage cap es m) sent) (received l) ms \<and>
    link_state l = (if received l = [] then default_state
      else from_wire lo (fst (last (received l))) (snd (last (received l))))"
proof -
  have inv: "sys_inv cap lo s" using assms(1) by (rule sys_reachable_inv)
  then have "link_inv lo l" by (simp add: sys_inv_def viewer_inv_def assms(2))
  with shown_in_order [OF inv, of i] show ?thesis unfolding link_inv_def assms(2) by blast
qed

text \<open>
  Every interface catches up: from any reachable state of the whole system in which the state-owning task
  runs and has a reader, and whatever the connection of an open interface has gone through, the system can
  go on, with no further observation, to a state in which this interface shows every observation ever
  accepted.
\<close>

theorem every_interface_catches_up:
  assumes "sys_reachable cap lo s"
    and "phase_of (sy_monitor s) \<noteq> Stopped" and "readers (sy_monitor s) > 0" and "accepted (sy_monitor s) \<noteq> []"
    and "ui_alive (vw_link (sy_viewers s i))"
  shows "\<exists>s' es sent later. (sys_step cap lo)\<^sup>*\<^sup>* s s' \<and> map fst es = accepted (sy_monitor s) \<and>
    link_state (vw_link (sy_viewers s' i)) = from_wire lo (to_wire (view_of cap es) sent) later"
  by (rule system_catches_up [OF sys_reachable_inv [OF assms(1)] assms(2-5)])

text \<open>A run to apply these to: the interface number 0 connects once the first observation is shown.\<close>

lemma monitor_alone: "observer_reachable cap ob \<Longrightarrow>
    sys_reachable cap lo \<lparr>sy_monitor = ob, sy_viewers = (\<lambda>_. viewer_start)\<rparr>"
proof (induction rule: observer_reachable.induct)
  case (start t0)
  show ?case using sys_reachable.sys_init [of cap lo t0] by (simp add: sys_start_def)
next
  case (step ob ob')
  then show ?case
    using sys_reachable.sys_next [OF step.IH sys_step.monitor_step, of ob'] by simp
qed

definition first_viewer :: viewer where
  "first_viewer = \<lparr>vw_link = fold (link_step 0) [Dialed, Subscribed, SnapshotArrived (to_wire shown_view 6) 7] link_start,
     vw_session = Some \<lparr>se_seen = 2, se_flight = []\<rparr>, vw_shown = [2]\<rparr>"

definition first_system :: system where
  "first_system = \<lparr>sy_monitor = one_shown, sy_viewers = (\<lambda>_. viewer_start)(0 := first_viewer)\<rparr>"

lemma first_viewer_run: "(viewer_step 0 [default_state, shown_view])\<^sup>*\<^sup>* viewer_start first_viewer"
proof -
  let ?ss = "[default_state, shown_view]" and ?d = "link_step 0 Dialed link_start"
  let ?s = "link_step 0 Subscribed ?d"
  let ?v1 = "\<lparr>vw_link = ?d, vw_session = None, vw_shown = []\<rparr>"
  let ?v2 = "\<lparr>vw_link = ?d, vw_session = Some \<lparr>se_seen = 0, se_flight = []\<rparr>, vw_shown = []\<rparr>"
  let ?v3 = "\<lparr>vw_link = ?s, vw_session = Some \<lparr>se_seen = 0, se_flight = []\<rparr>, vw_shown = []\<rparr>"
  let ?v4 = "\<lparr>vw_link = ?s, vw_session = Some \<lparr>se_seen = 2, se_flight = [(to_wire shown_view 6, 2)]\<rparr>, vw_shown = []\<rparr>"
  have "viewer_step 0 ?ss viewer_start ?v1"
    using viewer_step.own [of Dialed _ 0 viewer_start ?ss]
    by (simp add: viewer_start_def link_start_def connection_up_def)
  moreover have "viewer_step 0 ?ss ?v1 ?v2"
    using viewer_step.opens [of ?v1 0 ?ss] by (simp add: link_start_def)
  moreover have "viewer_step 0 ?ss ?v2 ?v3"
    using viewer_step.subscribed [of ?v2 _ 0 ?ss] by simp
  moreover have "viewer_step 0 ?ss ?v3 ?v4"
    using viewer_step.yields [of ?v3 _ ?ss 0 6] by (simp add: numeral_2_eq_2)
  moreover have "viewer_step 0 ?ss ?v4 first_viewer"
    using viewer_step.arrives [of ?v4 _ "to_wire shown_view 6" 2 "[]" 0 ?ss 7]
    by (simp add: link_start_def first_viewer_def)
  ultimately show ?thesis by (meson rtranclp.rtrancl_into_rtrancl rtranclp.rtrancl_refl)
qed

lemma sys_reachable_run: "(sys_step cap lo)\<^sup>*\<^sup>* s s' \<Longrightarrow> sys_reachable cap lo s \<Longrightarrow> sys_reachable cap lo s'"
  by (induction rule: rtranclp_induct) (auto intro: sys_reachable.sys_next)

lemma first_system_reachable: "sys_reachable 2 0 first_system"
proof -
  let ?s = "\<lparr>sy_monitor = one_shown, sy_viewers = (\<lambda>_. viewer_start)\<rparr>"
  have "(sys_step 2 0)\<^sup>*\<^sup>* ?s (?s\<lparr>sy_viewers := (sy_viewers ?s)(0 := first_viewer)\<rparr>)"
    by (rule viewer_run) (simp add: one_shown_simps first_viewer_run)
  then have "(sys_step 2 0)\<^sup>*\<^sup>* ?s first_system" by (simp add: first_system_def)
  then show ?thesis using monitor_alone [OF one_shown_reachable] by (rule sys_reachable_run)
qed

theorem views_only_advance_witness:
  "received (vw_link first_viewer) = [(to_wire shown_view 6, 7)] \<and>
   (\<exists>es ms. prefix (map fst es) [ConsumerOpen ''s'' None] \<and> sorted (map snd es) \<and> sorted ms \<and>
      list_all2 (\<lambda>r m. \<exists>sent. fst r = to_wire (stage 2 es m) sent) [(to_wire shown_view 6, 7 :: instant)] ms)"
proof -
  have r: "received (vw_link first_viewer) = [(to_wire shown_view 6, 7)]"
    by (simp add: first_viewer_def link_start_def)
  have parts: "vw_link (sy_viewers first_system 0) = vw_link first_viewer"
    "accepted (sy_monitor first_system) = [ConsumerOpen ''s'' None]"
    by (simp_all add: first_system_def one_shown_simps)
  show ?thesis
    using views_only_advance [OF first_system_reachable refl, of 0] unfolding parts r by blast
qed

theorem every_interface_catches_up_witness:
  "\<exists>s' es sent later. (sys_step 2 0)\<^sup>*\<^sup>* \<lparr>sy_monitor = one_emitted, sy_viewers = (\<lambda>_. viewer_start)\<rparr> s' \<and>
    map fst es = [ConsumerOpen ''s'' None] \<and>
    link_state (vw_link (sy_viewers s' 3)) = from_wire 0 (to_wire (view_of 2 es) sent) later"
  using every_interface_catches_up [OF monitor_alone [OF one_emitted_reachable, of 0], of 3]
  by (simp add: one_emitted_simps viewer_start_def link_start_def)

end
