(* ===== verification/Restarts.thy ===== *)
theory Restarts
  imports System "HOL-Library.Product_Lexorder"
begin

text \<open>
  The monitor process may end and be started again under the same address while interfaces run
  (\<^verbatim>\<open>src/monitor/client.rs\<close>: the supervisor's loop; \<^verbatim>\<open>src/observe/state.rs\<close>: \<open>start\<close>). Each incarnation owns
  a fresh state; the interfaces' connections to a dead one end, at a time of their own, and are made again.
\<close>

subsection \<open>A site\<close>

text \<open>
  The incarnations so far, the running one last, and which viewers still hold a connection to a dead one:
  such a connection may deliver what is on its way and end, and yields nothing new.
\<close>

record site =
  st_monitors :: "observer list"
  st_viewers :: "nat \<Rightarrow> viewer"
  st_stale :: "nat \<Rightarrow> bool"

definition site_start :: "nat \<Rightarrow> instant \<Rightarrow> site" where
  "site_start recent_buffer t0 = \<lparr>st_monitors = [observer_start recent_buffer t0], st_viewers = (\<lambda>_. viewer_start),
     st_stale = (\<lambda>_. False)\<rparr>"

text \<open>Every value any incarnation has put into its watch channel; the last one is the newest of the running one.\<close>

definition history :: "site \<Rightarrow> AppState list" where
  "history s = concat (map snapshots (st_monitors s))"

definition yields_nothing :: "viewer \<Rightarrow> viewer \<Rightarrow> bool" where
  "yields_nothing v v' \<longleftrightarrow> map_option se_seen (vw_session v') \<in> {None, map_option se_seen (vw_session v)}"

inductive site_step :: "nat \<Rightarrow> instant \<Rightarrow> site \<Rightarrow> site \<Rightarrow> bool" for recent_buffer lo where
  monitor_runs: "st_monitors s = olds @ [ob] \<Longrightarrow> observer_step recent_buffer ob ob' \<Longrightarrow>
    site_step recent_buffer lo s (s\<lparr>st_monitors := olds @ [ob']\<rparr>)"
| restart: "site_step recent_buffer lo s (s\<lparr>st_monitors := st_monitors s @ [observer_start recent_buffer t0],
    st_stale := (\<lambda>i. vw_session (st_viewers s i) \<noteq> None)\<rparr>)"
| viewer_acts: "viewer_step lo (history s) (st_viewers s i) v \<Longrightarrow>
    (st_stale s i \<Longrightarrow> yields_nothing (st_viewers s i) v) \<Longrightarrow>
    site_step recent_buffer lo s (s\<lparr>st_viewers := (st_viewers s)(i := v),
      st_stale := (st_stale s)(i := st_stale s i \<and> vw_session v \<noteq> None)\<rparr>)"

inductive site_reachable :: "nat \<Rightarrow> instant \<Rightarrow> site \<Rightarrow> bool" for recent_buffer lo where
  site_init: "site_reachable recent_buffer lo (site_start recent_buffer t0)"
| site_next: "site_reachable recent_buffer lo s \<Longrightarrow> site_step recent_buffer lo s s' \<Longrightarrow> site_reachable recent_buffer lo s'"

subsection \<open>The invariant\<close>

definition site_inv :: "nat \<Rightarrow> instant \<Rightarrow> site \<Rightarrow> bool" where
  "site_inv recent_buffer lo s \<longleftrightarrow> st_monitors s \<noteq> [] \<and> (\<forall>ob \<in> set (st_monitors s). observer_reachable recent_buffer ob) \<and>
     (\<forall>i. viewer_inv lo (history s) (st_viewers s i)) \<and> (\<forall>i. st_stale s i \<longrightarrow> vw_session (st_viewers s i) \<noteq> None)"

lemma site_step_inv: "site_step cap lo s s' \<Longrightarrow> site_inv cap lo s \<Longrightarrow> site_inv cap lo s'"
proof (induction rule: site_step.induct)
  case (monitor_runs s olds ob ob')
  from snapshots_grow [OF this(2)] obtain ts where "snapshots ob' = snapshots ob @ ts" by blast
  then have "history (s\<lparr>st_monitors := olds @ [ob']\<rparr>) = history s @ ts"
    by (simp add: history_def monitor_runs(1))
  with monitor_runs show ?case
    by (auto simp: site_inv_def viewer_inv_append intro: observer_reachable.step)
next
  case (restart s t0)
  then show ?case
    by (auto simp: site_inv_def history_def viewer_inv_append [unfolded history_def] observer_reachable.start)
next
  case (viewer_acts s i v)
  then show ?case by (auto simp: site_inv_def history_def intro: viewer_step_inv)
qed

lemma site_reachable_inv: "site_reachable cap lo s \<Longrightarrow> site_inv cap lo s"
proof (induction rule: site_reachable.induct)
  case (site_init t0)
  show ?case by (simp add: site_inv_def site_start_def observer_reachable.start viewer_start_inv)
next
  case (site_next s s')
  then show ?case by (blast intro: site_step_inv)
qed

subsection \<open>The history by incarnation\<close>

text \<open>
  \<open>indexed kss\<close> lists, for the incarnations 0, 1, \<dots>, which stage each of their snapshots is; in
  lexicographic order these pairs only grow.
\<close>

definition indexed :: "nat list list \<Rightarrow> (nat \<times> nat) list" where
  "indexed kss = concat (map (\<lambda>k. map (Pair k) (kss ! k)) [0..<length kss])"

lemma indexed_snoc: "indexed (kss @ [ks]) = indexed kss @ map (Pair (length kss)) ks"
proof -
  have "map (\<lambda>k. map (Pair k) ((kss @ [ks]) ! k)) [0..<length kss] = map (\<lambda>k. map (Pair k) (kss ! k)) [0..<length kss]"
    by (rule map_cong) (simp_all add: nth_append)
  then show ?thesis by (simp add: indexed_def del: map_eq_conv)
qed

lemma indexed_set: "(k, m) \<in> set (indexed kss) \<longleftrightarrow> k < length kss \<and> m \<in> set (kss ! k)"
  by (auto simp: indexed_def)

lemma indexed_sorted: "\<forall>ks \<in> set kss. sorted ks \<Longrightarrow> sorted (indexed kss)"
proof (induction kss rule: rev_induct)
  case Nil
  show ?case by (simp add: indexed_def)
next
  case (snoc ks kss)
  have "sorted (map (Pair (length kss)) ks)" using snoc.prems by (simp add: sorted_map less_eq_prod_def)
  moreover have "\<forall>x \<in> set (indexed kss). \<forall>y \<in> set (map (Pair (length kss)) ks). x \<le> y"
    by (auto simp: indexed_set less_eq_prod_def)
  ultimately show ?case using snoc by (simp add: indexed_snoc sorted_append)
qed

lemma history_stages:
  assumes "\<forall>ob \<in> set obs. observer_reachable cap ob"
  shows "\<exists>ess kss. length ess = length obs \<and> length kss = length obs \<and> (\<forall>ks \<in> set kss. sorted ks) \<and>
    list_all2 (\<lambda>es ob. prefix (map fst es) (accepted ob) \<and> sorted (map snd es)) ess obs \<and>
    concat (map snapshots obs) = map (\<lambda>(k, m). stage cap (ess ! k) m) (indexed kss)"
  using assms
proof (induction obs rule: rev_induct)
  case Nil
  show ?case by (intro exI [of _ "[]"]) (simp add: indexed_def)
next
  case (snoc ob obs)
  from snoc obtain ess kss where IH: "length ess = length obs" "length kss = length obs" "\<forall>ks \<in> set kss. sorted ks"
    "list_all2 (\<lambda>es ob. prefix (map fst es) (accepted ob) \<and> sorted (map snd es)) ess obs"
    "concat (map snapshots obs) = map (\<lambda>(k, m). stage cap (ess ! k) m) (indexed kss)" by auto
  obtain es ks where new: "prefix (map fst es) (accepted ob)" "sorted (map snd es)" "sorted ks"
    "snapshots ob = map (stage cap es) ks"
    using stages_of_snapshots [of cap ob] snoc.prems by auto
  have old: "map (\<lambda>(k, m). stage cap ((ess @ [es]) ! k) m) (indexed kss) = map (\<lambda>(k, m). stage cap (ess ! k) m) (indexed kss)"
    using IH(1,2) by (auto simp: indexed_set nth_append)
  show ?case
    using IH new old
    by (intro exI [of _ "ess @ [es]"] exI [of _ "kss @ [ks]"])
      (simp add: indexed_snoc list_all2_appendI comp_def nth_append)
qed

subsection \<open>What an interface shows across restarts\<close>

lemma shown_by_incarnation:
  assumes inv: "site_inv cap lo s"
  shows "\<exists>ess ps. list_all2 (\<lambda>es ob. prefix (map fst es) (accepted ob) \<and> sorted (map snd es)) ess (st_monitors s) \<and>
    sorted ps \<and> list_all2 (\<lambda>r (k, m). k < length (st_monitors s) \<and> (\<exists>sent. fst r = to_wire (stage cap (ess ! k) m) sent))
      (received (vw_link (st_viewers s i))) ps"
proof -
  let ?v = "st_viewers s i" and ?ss = "history s"
  have v: "viewer_inv lo ?ss ?v" and obs: "\<forall>ob \<in> set (st_monitors s). observer_reachable cap ob"
    using inv by (simp_all add: site_inv_def)
  from history_stages [OF obs] obtain ess kss where len: "length kss = length (st_monitors s)"
    and sorted: "\<forall>ks \<in> set kss. sorted ks"
    and es: "list_all2 (\<lambda>es ob. prefix (map fst es) (accepted ob) \<and> sorted (map snd es)) ess (st_monitors s)"
    and ss: "?ss = map (\<lambda>(k, m). stage cap (ess ! k) m) (indexed kss)"
    unfolding history_def by blast
  let ?ps = "map (\<lambda>n. indexed kss ! (n - 1)) (vw_shown ?v)"
  have shown: "list_all2 (\<lambda>r n. is_snapshot ?ss (fst r) n) (received (vw_link ?v)) (vw_shown ?v)"
    and "sorted (vw_shown ?v)"
    using v by (simp_all add: viewer_inv_def numbers_of_def sorted_append)
  moreover from shown have "\<forall>n \<in> set (vw_shown ?v). 0 < n \<and> n \<le> length (indexed kss)"
    by (auto simp: is_snapshot_def ss list_all2_conv_all_nth in_set_conv_nth)
  ultimately have in_order: "sorted ?ps" using indexed_sorted [OF sorted] by (blast intro: sorted_nth_map)
  have pos: "(\<lambda>(k, m). k < length (st_monitors s) \<and> (\<exists>sent. w = to_wire (stage cap (ess ! k) m) sent)) (indexed kss ! (n - 1))"
    if "is_snapshot ?ss w n" for w n
  proof -
    obtain k m where km: "indexed kss ! (n - 1) = (k, m)" by (cases "indexed kss ! (n - 1)")
    have n: "n - 1 < length (indexed kss)" using that by (auto simp: is_snapshot_def ss)
    have "(k, m) \<in> set (indexed kss)" using nth_mem [OF n] unfolding km .
    then have "k < length kss" by (simp add: indexed_set)
    with that n km show ?thesis by (auto simp: is_snapshot_def ss len)
  qed
  have "list_all2 (\<lambda>r (k, m). k < length (st_monitors s) \<and> (\<exists>sent. fst r = to_wire (stage cap (ess ! k) m) sent))
      (received (vw_link ?v)) ?ps"
    unfolding list_all2_map2 by (rule list_all2_mono [OF shown]) (rule pos)
  with in_order es show ?thesis by blast
qed

subsection \<open>Catching up with the running incarnation\<close>

text \<open>A viewer whose connection is not stale moves as in theory System.\<close>

lemma site_viewer_run:
  assumes "(viewer_step lo (history s))\<^sup>*\<^sup>* (st_viewers s i) v" and "\<not> st_stale s i"
  shows "(site_step cap lo)\<^sup>*\<^sup>* s (s\<lparr>st_viewers := (st_viewers s)(i := v)\<rparr>)"
  using assms(1)
proof (induction rule: rtranclp_induct)
  case (step v v')
  let ?s = "s\<lparr>st_viewers := (st_viewers s)(i := v)\<rparr>"
  have "(st_stale s)(i := False) = st_stale s" using assms(2) by (simp add: fun_eq_iff)
  then have "site_step cap lo ?s (s\<lparr>st_viewers := (st_viewers s)(i := v')\<rparr>)"
    using site_step.viewer_acts [of lo ?s i v' cap] step.hyps(2) assms(2) by (simp add: history_def)
  with step.IH show ?case by (rule rtranclp.rtrancl_into_rtrancl)
qed simp

lemma site_monitor_run:
  assumes "(observer_step cap)\<^sup>*\<^sup>* ob ob'" and "st_monitors s = olds @ [ob]"
  shows "(site_step cap lo)\<^sup>*\<^sup>* s (s\<lparr>st_monitors := olds @ [ob']\<rparr>)"
  using assms(1)
proof (induction rule: rtranclp_induct)
  case base
  have "s\<lparr>st_monitors := olds @ [ob]\<rparr> = s" using assms(2) by simp
  then show ?case by simp
next
  case (step u u')
  have "site_step cap lo (s\<lparr>st_monitors := olds @ [u]\<rparr>) (s\<lparr>st_monitors := olds @ [u]\<rparr>\<lparr>st_monitors := olds @ [u']\<rparr>)"
    using step.hyps(2) by (intro site_step.monitor_runs) simp_all
  with step.IH show ?case by simp
qed

text \<open>The connection to a dead incarnation ends.\<close>

lemma stale_ends:
  assumes inv: "site_inv cap lo s" and alive: "ui_alive (vw_link (st_viewers s i))"
  shows "\<exists>s'. (site_step cap lo)\<^sup>*\<^sup>* s s' \<and> st_monitors s' = st_monitors s \<and> \<not> st_stale s' i \<and>
    ui_alive (vw_link (st_viewers s' i))"
proof (cases "st_stale s i")
  case True
  let ?v = "st_viewers s i"
  have up: "link_at (vw_link ?v) = Subscribing \<or> link_at (vw_link ?v) = Pumping"
    using inv True by (auto simp: site_inv_def viewer_inv_def connection_up_def)
  define e where "e = (if link_at (vw_link ?v) = Subscribing then SubscribeFailed else StreamEnded)"
  let ?l = "link_step lo e (vw_link ?v)"
  have l: "link_at ?l = Backoff" "ui_alive ?l"
    using up alive by (auto simp: e_def connection_over_def Let_def)
  have "viewer_step lo (history s) ?v (?v\<lparr>vw_link := ?l, vw_session := (if connection_up ?l then vw_session ?v else None)\<rparr>)"
    by (rule viewer_step.own [of e]) (simp_all add: e_def)
  then have "viewer_step lo (history s) ?v (?v\<lparr>vw_link := ?l, vw_session := None\<rparr>)"
    using l(1) by (simp add: connection_up_def)
  then have "site_step cap lo s (s\<lparr>st_viewers := (st_viewers s)(i := ?v\<lparr>vw_link := ?l, vw_session := None\<rparr>),
      st_stale := (st_stale s)(i := False)\<rparr>)" (is "site_step cap lo s ?s")
    using site_step.viewer_acts [of lo s i "?v\<lparr>vw_link := ?l, vw_session := None\<rparr>" cap]
    by (simp add: yields_nothing_def)
  with l(2) show ?thesis by (intro exI [of _ ?s]) auto
next
  case False
  with alive show ?thesis by blast
qed

lemma site_run_inv: "(site_step cap lo)\<^sup>*\<^sup>* s s' \<Longrightarrow> site_inv cap lo s \<Longrightarrow> site_inv cap lo s'"
  by (induction rule: rtranclp_induct) (auto intro: site_step_inv)

lemma site_catches_up:
  assumes inv: "site_inv cap lo s" and now: "st_monitors s = olds @ [ob]"
    and running: "phase_of ob \<noteq> Stopped" "readers ob > 0" "accepted ob \<noteq> []"
    and alive: "ui_alive (vw_link (st_viewers s i))"
  shows "\<exists>s' ob' es sent later. (site_step cap lo)\<^sup>*\<^sup>* s s' \<and> st_monitors s' = olds @ [ob'] \<and> map fst es = accepted ob \<and>
    link_state (vw_link (st_viewers s' i)) = from_wire lo (to_wire (view_of cap es) sent) later"
proof -
  obtain u where u: "(site_step cap lo)\<^sup>*\<^sup>* s u" "st_monitors u = olds @ [ob]" "\<not> st_stale u i"
    "ui_alive (vw_link (st_viewers u i))"
    using stale_ends [OF inv alive] now by auto
  obtain ob' es where ob': "(observer_step cap)\<^sup>*\<^sup>* ob ob'" "map fst es = accepted ob" "last (snapshots ob') = view_of cap es"
    using catches_up [of cap ob] inv running now by (auto simp: site_inv_def)
  let ?t = "u\<lparr>st_monitors := olds @ [ob']\<rparr>"
  have run: "(site_step cap lo)\<^sup>*\<^sup>* s ?t" using u(1) site_monitor_run [OF ob'(1) u(2)] by (rule rtranclp_trans)
  then have inv': "site_inv cap lo ?t" using inv by (rule site_run_inv)
  then have "snapshots ob' \<noteq> []" by (auto simp: site_inv_def observer_inv_def dest: observer_reachable_inv)
  then have ne: "history ?t \<noteq> []" and newest: "last (history ?t) = view_of cap es"
    using ob'(3) by (auto simp: history_def)
  have v: "viewer_inv lo (history ?t) (st_viewers ?t i)" "ui_alive (vw_link (st_viewers ?t i))"
    using inv' u(4) by (simp_all add: site_inv_def)
  obtain v' sent later where v': "(viewer_step lo (history ?t))\<^sup>*\<^sup>* (st_viewers ?t i) v'"
    "link_state (vw_link v') = from_wire lo (to_wire (view_of cap es) sent) later"
    using viewer_catches_up [OF v ne] unfolding newest by blast
  have "(site_step cap lo)\<^sup>*\<^sup>* ?t (?t\<lparr>st_viewers := (st_viewers ?t)(i := v')\<rparr>)"
    using u(3) by (intro site_viewer_run [OF v'(1)]) simp
  with run have "(site_step cap lo)\<^sup>*\<^sup>* s (?t\<lparr>st_viewers := (st_viewers ?t)(i := v')\<rparr>)" by (rule rtranclp_trans)
  with v'(2) ob'(2) show ?thesis by fastforce
qed

subsection \<open>Properties\<close>

text \<open>
  Claim C6. An interface never goes back to a monitor that is gone: however often the monitor was
  restarted, each snapshot an interface received on all its connections shows a stage of the history of one
  incarnation, the observations that one accepted, in order; later snapshots are of the same or later
  incarnations, within one incarnation of the same or later stages, and what the interface shows is the
  last one. Counts of two incarnations are never mixed.
\<close>

theorem restarts_never_mix:
  assumes "site_reachable cap lo s" and "l = vw_link (st_viewers s i)"
  shows "\<exists>ess ps. list_all2 (\<lambda>es ob. prefix (map fst es) (accepted ob) \<and> sorted (map snd es)) ess (st_monitors s) \<and>
    sorted ps \<and> list_all2 (\<lambda>r (k, m). k < length (st_monitors s) \<and> (\<exists>sent. fst r = to_wire (stage cap (ess ! k) m) sent))
      (received l) ps \<and>
    link_state l = (if received l = [] then default_state
      else from_wire lo (fst (last (received l))) (snd (last (received l))))"
proof -
  have inv: "site_inv cap lo s" using assms(1) by (rule site_reachable_inv)
  then have "link_inv lo l" by (simp add: site_inv_def viewer_inv_def assms(2))
  with shown_by_incarnation [OF inv, of i] show ?thesis unfolding link_inv_def assms(2) by blast
qed


text \<open>
  A run to apply these to: the interface 0 shows the first observation, the monitor is started again, and
  the new one accepts an observation.
\<close>

definition first_site :: "observer list \<Rightarrow> site" where
  "first_site obs = \<lparr>st_monitors = obs, st_viewers = (\<lambda>_. viewer_start)(0 := first_viewer), st_stale = (\<lambda>i. i = 0)\<rparr>"

lemma site_alone: "observer_reachable cap ob \<Longrightarrow>
    site_reachable cap lo \<lparr>st_monitors = [ob], st_viewers = (\<lambda>_. viewer_start), st_stale = (\<lambda>_. False)\<rparr>"
proof (induction rule: observer_reachable.induct)
  case (start t0)
  show ?case using site_reachable.site_init [of cap lo t0] by (simp add: site_start_def)
next
  case (step ob ob')
  then show ?case
    using site_reachable.site_next [OF step.IH site_step.monitor_runs [of _ "[]"], of ob ob'] by simp
qed

lemma site_reachable_run: "(site_step cap lo)\<^sup>*\<^sup>* s s' \<Longrightarrow> site_reachable cap lo s \<Longrightarrow> site_reachable cap lo s'"
  by (induction rule: rtranclp_induct) (auto intro: site_reachable.site_next)

lemma first_site_restarted: "site_reachable 2 0 (first_site [one_shown, observer_start 2 0])"
proof -
  let ?s = "\<lparr>st_monitors = [one_shown], st_viewers = (\<lambda>_. viewer_start), st_stale = (\<lambda>_. False)\<rparr>"
  let ?t = "?s\<lparr>st_viewers := (st_viewers ?s)(0 := first_viewer)\<rparr>"
  have "(site_step 2 0)\<^sup>*\<^sup>* ?s ?t"
    by (rule site_viewer_run) (simp_all add: history_def one_shown_simps first_viewer_run)
  then have "site_reachable 2 0 ?t" using site_alone [OF one_shown_reachable] by (rule site_reachable_run)
  moreover have "vw_session (if i = 0 then first_viewer else viewer_start) = Some y \<longleftrightarrow>
      i = (0::nat) \<and> y = \<lparr>se_seen = 2, se_flight = []\<rparr>" for i y
    by (auto simp: first_viewer_def viewer_start_def)
  ultimately show ?thesis
    using site_reachable.site_next [OF _ site_step.restart, of 2 0 ?t 0] by (simp add: first_site_def)
qed

lemma first_site_reachable: "site_reachable 2 0 (first_site [one_shown, one_emitted])"
proof -
  have "site_step 2 0 (first_site [one_shown, observer_start 2 0]) (first_site [one_shown, one_emitted])"
    using site_step.monitor_runs [of "first_site [one_shown, observer_start 2 0]" "[one_shown]", OF _ observer_step.emit]
    by (simp add: first_site_def one_emitted_def)
  with first_site_restarted show ?thesis by (rule site_reachable.site_next)
qed

theorem restarts_never_mix_witness:
  "received (vw_link first_viewer) = [(to_wire shown_view 6, 7)] \<and>
   (\<exists>ess ps. list_all2 (\<lambda>es ob. prefix (map fst es) (accepted ob) \<and> sorted (map snd es)) ess [one_shown, observer_start 2 0] \<and>
      sorted ps \<and> list_all2 (\<lambda>r (k, m). k < (2::nat) \<and> (\<exists>sent. fst r = to_wire (stage 2 (ess ! k) m) sent))
        [(to_wire shown_view 6, 7 :: instant)] ps)"
proof -
  have r: "received (vw_link first_viewer) = [(to_wire shown_view 6, 7)]"
    by (simp add: first_viewer_def link_start_def)
  have parts: "vw_link (st_viewers (first_site obs) 0) = vw_link first_viewer" "st_monitors (first_site obs) = obs" for obs
    by (simp_all add: first_site_def)
  have two: "length [one_shown, observer_start 2 0] = 2" by simp
  show ?thesis
    using restarts_never_mix [OF first_site_restarted refl, of 0] unfolding parts r two by blast
qed


end
