(* ===== verification/Logging.thy ===== *)
theory Logging
  imports Prelude
begin

text \<open>
  \<^verbatim>\<open>src/logging.rs\<close>: which verbosity the environment selects, and where the log lines of a binary go.
  Parsing a directive, opening and duplicating a file and formatting a line are the libraries'.
\<close>

text \<open>\<open>String::to_lowercase\<close> on a string of ASCII characters, which a level or a directive is.\<close>

definition lower_char :: "char \<Rightarrow> char" where
  "lower_char c = (let n = of_char c :: nat in if 65 \<le> n \<and> n \<le> 90 then char_of (n + 32) else c)"

definition to_lowercase :: "string \<Rightarrow> string" where
  "to_lowercase s = map lower_char s"

text \<open>
  \<open>filter\<close>: \<open>level\<close> is the value of \<open>LOG_LEVEL\<close> if it is set (to a valid string), \<open>try_new\<close> the library's parser
  of directives and \<open>new\<close> the one that never fails.
\<close>

definition log_filter :: "(string \<Rightarrow> 'f option) \<Rightarrow> (string \<Rightarrow> 'f) \<Rightarrow> string option \<Rightarrow> 'f" where
  "log_filter try_new new level =
     (let level = (case level of None \<Rightarrow> ''info'' | Some l \<Rightarrow> l)
      in case try_new (to_lowercase level) of Some f \<Rightarrow> f | None \<Rightarrow> new ''info'')"

text \<open>Where a log line goes, and a binary's log set-up.\<close>

datatype writer = Stderr | LogFile string | Sink

record 'f subscriber_config =
  sc_filter :: 'f
  sc_ansi :: bool
  sc_writer :: "bool \<Rightarrow> writer"

text \<open>
  \<open>init\<close>: \<open>opens\<close> says whether the file can be opened for appending; the writer is asked for at every line,
  with whether the handle could be duplicated.
\<close>

definition log_init ::
  "(string \<Rightarrow> 'f option) \<Rightarrow> (string \<Rightarrow> 'f) \<Rightarrow> string option \<Rightarrow> (string \<Rightarrow> bool) \<Rightarrow> string \<Rightarrow> string + 'f subscriber_config" where
  "log_init try_new new level opens log_file =
     (if \<not> opens log_file then Inl (''opening log file '' @ log_file)
      else Inr \<lparr>sc_filter = log_filter try_new new level, sc_ansi = False,
        sc_writer = (\<lambda>cloned. if cloned then LogFile log_file else Sink)\<rparr>)"

definition log_init_stderr ::
  "(string \<Rightarrow> 'f option) \<Rightarrow> (string \<Rightarrow> 'f) \<Rightarrow> string option \<Rightarrow> 'f subscriber_config" where
  "log_init_stderr try_new new level =
     \<lparr>sc_filter = log_filter try_new new level, sc_ansi = True, sc_writer = (\<lambda>_. Stderr)\<rparr>"

lemma lower_char_idem: "lower_char (lower_char c) = lower_char c"
  by (auto simp: lower_char_def Let_def)

lemma to_lowercase_idem [simp]: "to_lowercase (to_lowercase s) = to_lowercase s"
  by (simp add: to_lowercase_def lower_char_idem)

text \<open>
  The level is read without regard to case, and the interface never logs to the terminal it draws on.
\<close>

theorem log_level_ignores_case:
  "log_filter try_new new (Some (to_lowercase level)) = log_filter try_new new (Some level)"
  by (simp add: log_filter_def)

theorem interface_log_spares_terminal:
  assumes "log_init try_new new level opens log_file = Inr config"
  shows "sc_writer config cloned \<noteq> Stderr \<and> \<not> sc_ansi config"
  using assms by (auto simp: log_init_def split: if_splits)

theorem interface_log_spares_terminal_witness:
  "sc_writer (projr (log_init Some id (Some ''DEBUG'') (\<lambda>_. True) ''pub-sub-tui.log'')) False \<noteq> Stderr"
  using interface_log_spares_terminal [of Some id "Some ''DEBUG''" "\<lambda>_. True" "''pub-sub-tui.log''"]
  by (simp add: log_init_def)

end
