(* ===== verification/Utf8.thy ===== *)
theory Utf8
  imports Prelude
begin

text \<open>
  Rust's strings as far as the message view needs them: the scalar values of a \<open>&str\<close>, \<open>str::from_utf8\<close>,
  the UTF-8 bytes of a \<open>String\<close>, and the character classes of \<open>char\<close>.
\<close>

type_synonym scalar = nat

definition continuation :: "nat \<Rightarrow> bool" where
  "continuation b \<longleftrightarrow> 0x80 \<le> b \<and> b \<le> 0xBF"

text \<open>\<open>str::from_utf8\<close>: the well-formed byte sequences of the Unicode standard, shortest forms only.\<close>

fun utf8_decode :: "nat list \<Rightarrow> scalar list option" where
  "utf8_decode [] = Some []"
| "utf8_decode (b # rest) =
     (if b < 0x80 then map_option (Cons b) (utf8_decode rest)
      else if 0xC2 \<le> b \<and> b \<le> 0xDF then
        (case rest of
           b1 # rest \<Rightarrow>
             if continuation b1
             then map_option (Cons ((b - 0xC0) * 64 + (b1 - 0x80))) (utf8_decode rest) else None
         | [] \<Rightarrow> None)
      else if 0xE0 \<le> b \<and> b \<le> 0xEF then
        (case rest of
           b1 # b2 # rest \<Rightarrow>
             if continuation b1 \<and> continuation b2 \<and> (b = 0xE0 \<longrightarrow> 0xA0 \<le> b1) \<and> (b = 0xED \<longrightarrow> b1 \<le> 0x9F)
             then map_option (Cons ((b - 0xE0) * 4096 + (b1 - 0x80) * 64 + (b2 - 0x80))) (utf8_decode rest)
             else None
         | _ \<Rightarrow> None)
      else if 0xF0 \<le> b \<and> b \<le> 0xF4 then
        (case rest of
           b1 # b2 # b3 # rest \<Rightarrow>
             if continuation b1 \<and> continuation b2 \<and> continuation b3 \<and>
                (b = 0xF0 \<longrightarrow> 0x90 \<le> b1) \<and> (b = 0xF4 \<longrightarrow> b1 \<le> 0x8F)
             then map_option (Cons ((b - 0xF0) * 262144 + (b1 - 0x80) * 4096 + (b2 - 0x80) * 64 + (b3 - 0x80)))
                    (utf8_decode rest)
             else None
         | _ \<Rightarrow> None)
      else None)"

text \<open>The UTF-8 bytes of a scalar value and of a string.\<close>

definition utf8_bytes :: "scalar \<Rightarrow> nat list" where
  "utf8_bytes c =
     (if c < 0x80 then [c]
      else if c < 0x800 then [0xC0 + c div 64, 0x80 + c mod 64]
      else if c < 0x10000 then [0xE0 + c div 4096, 0x80 + c div 64 mod 64, 0x80 + c mod 64]
      else [0xF0 + c div 262144, 0x80 + c div 4096 mod 64, 0x80 + c div 64 mod 64, 0x80 + c mod 64])"

definition utf8_string :: "scalar list \<Rightarrow> string" where
  "utf8_string cs = map char_of (concat (map utf8_bytes cs))"

lemma utf8_string_simps [simp]:
  "utf8_string [] = []" "utf8_string (cs @ ds) = utf8_string cs @ utf8_string ds"
  by (simp_all add: utf8_string_def)

lemma utf8_string_Cons: "utf8_string (c # cs) = map char_of (utf8_bytes c) @ utf8_string cs"
  by (simp add: utf8_string_def)

text \<open>Digits of base 64.\<close>

lemma base64_digit:
  fixes a w :: nat
  assumes "w < 64"
  shows "(a * 64 + w) div 64 = a" "(a * 64 + w) mod 64 = w"
  using assms by simp_all

lemma div_4096: "(c :: nat) div 4096 = c div 64 div 64" and div_262144: "c div 262144 = c div 64 div 64 div 64"
  by (simp_all add: div_mult2_eq [symmetric])

lemma two_bytes:
  assumes "0xC2 \<le> b" "b \<le> 0xDF" "continuation b1"
  shows "utf8_bytes ((b - 0xC0) * 64 + (b1 - 0x80)) = [b, b1]"
proof -
  define x y where "x = b - 0xC0" and "y = b1 - 0x80"
  have "b = 0xC0 + x" "b1 = 0x80 + y" "y < 64" "2 \<le> x" "x < 32"
    using assms unfolding x_def y_def continuation_def by linarith+
  then show ?thesis by (simp add: utf8_bytes_def base64_digit)
qed

lemma three_bytes:
  assumes "0xE0 \<le> b" "b \<le> 0xEF" "continuation b1" "continuation b2" "b = 0xE0 \<longrightarrow> 0xA0 \<le> b1"
  shows "utf8_bytes ((b - 0xE0) * 4096 + (b1 - 0x80) * 64 + (b2 - 0x80)) = [b, b1, b2]"
proof -
  define x y z where "x = b - 0xE0" and "y = b1 - 0x80" and "z = b2 - 0x80"
  have eqs: "b = 0xE0 + x" "b1 = 0x80 + y" "b2 = 0x80 + z" "y < 64" "z < 64" "x < 16" "x = 0 \<longrightarrow> 32 \<le> y"
    using assms unfolding x_def y_def z_def continuation_def by linarith+
  have c: "x * 4096 + y * 64 + z = (x * 64 + y) * 64 + z" by simp
  have "0x800 \<le> x * 4096 + y * 64 + z" using eqs by (cases x) auto
  moreover have "x * 4096 + y * 64 + z < 0x10000" using eqs by linarith
  ultimately show ?thesis
    using eqs unfolding eqs(1,2,3) add_diff_cancel_left'
    unfolding utf8_bytes_def c div_4096 base64_digit [OF eqs(5)] base64_digit [OF eqs(4)] by simp
qed

lemma four_bytes:
  assumes "0xF0 \<le> b" "b \<le> 0xF4" "continuation b1" "continuation b2" "continuation b3" "b = 0xF0 \<longrightarrow> 0x90 \<le> b1"
  shows "utf8_bytes ((b - 0xF0) * 262144 + (b1 - 0x80) * 4096 + (b2 - 0x80) * 64 + (b3 - 0x80)) = [b, b1, b2, b3]"
proof -
  define x y z w where "x = b - 0xF0" and "y = b1 - 0x80" and "z = b2 - 0x80" and "w = b3 - 0x80"
  have eqs: "b = 0xF0 + x" "b1 = 0x80 + y" "b2 = 0x80 + z" "b3 = 0x80 + w" "y < 64" "z < 64" "w < 64" "x = 0 \<longrightarrow> 16 \<le> y"
    using assms unfolding x_def y_def z_def w_def continuation_def by linarith+
  have c: "x * 262144 + y * 4096 + z * 64 + w = ((x * 64 + y) * 64 + z) * 64 + w" by simp
  have "0x10000 \<le> x * 262144 + y * 4096 + z * 64 + w" using eqs by (cases x) auto
  then show ?thesis
    using eqs unfolding eqs(1,2,3,4) add_diff_cancel_left'
    unfolding utf8_bytes_def c div_4096 div_262144 base64_digit [OF eqs(7)] base64_digit [OF eqs(6)]
      base64_digit [OF eqs(5)] by simp
qed

text \<open>Decoding loses nothing: the bytes of the decoded string are the bytes that were decoded.\<close>

lemma utf8_decode_bytes: "utf8_decode bs = Some cs \<Longrightarrow> concat (map utf8_bytes cs) = bs"
proof (induction bs arbitrary: cs rule: utf8_decode.induct)
  case (2 b rest)
  consider "b < 0x80" | "\<not> b < 0x80" "0xC2 \<le> b \<and> b \<le> 0xDF" | "\<not> b < 0x80" "\<not> (0xC2 \<le> b \<and> b \<le> 0xDF)" "0xE0 \<le> b \<and> b \<le> 0xEF"
    | "\<not> b < 0x80" "\<not> (0xC2 \<le> b \<and> b \<le> 0xDF)" "\<not> (0xE0 \<le> b \<and> b \<le> 0xEF)" "0xF0 \<le> b \<and> b \<le> 0xF4"
    using "2.prems" by (auto split: if_splits)
  then show ?case
  proof cases
    case 1
    with "2.prems" "2.IH"(1) show ?thesis by (auto simp: utf8_bytes_def)
  next
    case 2
    then obtain b1 r ds where "rest = b1 # r" "continuation b1" "utf8_decode r = Some ds"
      "cs = ((b - 0xC0) * 64 + (b1 - 0x80)) # ds"
      using "2.prems" by (auto split: list.splits if_splits)
    with 2 "2.IH"(2) two_bytes show ?thesis by simp
  next
    case 3
    then obtain b1 b2 r ds where "rest = b1 # b2 # r" "continuation b1" "continuation b2"
      "b = 0xE0 \<longrightarrow> 0xA0 \<le> b1" "b = 0xED \<longrightarrow> b1 \<le> 0x9F" "utf8_decode r = Some ds"
      "cs = ((b - 0xE0) * 4096 + (b1 - 0x80) * 64 + (b2 - 0x80)) # ds"
      using "2.prems" by (auto split: list.splits if_splits)
    with 3 "2.IH"(3) three_bytes show ?thesis by simp
  next
    case 4
    then obtain b1 b2 b3 r ds where "rest = b1 # b2 # b3 # r" "continuation b1" "continuation b2" "continuation b3"
      "b = 0xF0 \<longrightarrow> 0x90 \<le> b1" "b = 0xF4 \<longrightarrow> b1 \<le> 0x8F" "utf8_decode r = Some ds"
      "cs = ((b - 0xF0) * 262144 + (b1 - 0x80) * 4096 + (b2 - 0x80) * 64 + (b3 - 0x80)) # ds"
      using "2.prems" by (auto split: list.splits if_splits)
    with 4 "2.IH"(4) four_bytes show ?thesis by simp
  qed
qed simp

subsection \<open>Character classes\<close>

definition is_control :: "scalar \<Rightarrow> bool" where
  "is_control c \<longleftrightarrow> c < 0x20 \<or> 0x7F \<le> c \<and> c \<le> 0x9F"

definition is_whitespace :: "scalar \<Rightarrow> bool" where
  "is_whitespace c \<longleftrightarrow> 9 \<le> c \<and> c \<le> 13 \<or> c \<in> {0x20, 0x85, 0xA0, 0x1680, 0x2028, 0x2029, 0x202F, 0x205F, 0x3000} \<or>
     0x2000 \<le> c \<and> c \<le> 0x200A"

definition is_ascii_digit :: "scalar \<Rightarrow> bool" where
  "is_ascii_digit c \<longleftrightarrow> 48 \<le> c \<and> c \<le> 57"

definition is_ascii_alphabetic :: "scalar \<Rightarrow> bool" where
  "is_ascii_alphabetic c \<longleftrightarrow> 65 \<le> c \<and> c \<le> 90 \<or> 97 \<le> c \<and> c \<le> 122"

text \<open>The scalar of an ASCII character.\<close>

abbreviation ascii :: "char \<Rightarrow> scalar" where
  "ascii c \<equiv> of_char c"

end
