(* ===== verification/Message_View.thy ===== *)
theory Message_View
  imports Theme Utf8
begin

text \<open>
  \<^verbatim>\<open>src/ui/message_view.rs\<close>: how a captured payload is shown: as highlighted JSON, as text or as a hex
  dump. The JSON parser and pretty-printer are parameters: \<open>pretty_json data\<close> is the pretty-printed
  form of \<open>data\<close>, if it is JSON.
\<close>

record Rendered =
  rendered_label :: string
  rendered_lines :: "line list"

subsection \<open>Highlighting\<close>

definition json_key :: style where "json_key = bold (fg Cyan theme_base)"
definition json_string :: style where "json_string = fg Green theme_base"
definition json_number :: style where "json_number = fg Yellow theme_base"
definition json_literal :: style where "json_literal = fg Magenta theme_base"
definition json_punct :: style where "json_punct = fg White theme_base"

text \<open>The rest of a string literal after its opening quote, and what follows it.\<close>

fun scan_string :: "bool \<Rightarrow> scalar list \<Rightarrow> scalar list \<times> scalar list" where
  "scan_string escaped [] = ([], [])"
| "scan_string escaped (d # ds) =
     (if escaped then (let (s, rest) = scan_string False ds in (d # s, rest))
      else if d = ascii CHR 0x5C then (let (s, rest) = scan_string True ds in (d # s, rest))
      else if d = ascii (CHR 0x22) then ([d], ds)
      else (let (s, rest) = scan_string False ds in (d # s, rest)))"

lemma scan_string_append: "fst (scan_string escaped ds) @ snd (scan_string escaped ds) = ds"
proof (induction ds arbitrary: escaped)
  case (Cons d ds)
  show ?case using Cons [of True] Cons [of False] by (auto simp: Let_def split: prod.split)
qed simp

lemma scan_string_length: "length (snd (scan_string escaped ds)) \<le> length ds"
  using scan_string_append [of escaped ds] by (metis length_append le_add2)

definition number_tail :: "scalar \<Rightarrow> bool" where
  "number_tail c \<longleftrightarrow> is_ascii_digit c \<or> c \<in> {ascii (CHR ''.''), ascii (CHR ''e''), ascii (CHR ''E''),
     ascii (CHR ''+''), ascii (CHR ''-'')}"

definition next_is_colon :: "scalar list \<Rightarrow> bool" where
  "next_is_colon rest = (case dropWhile is_whitespace rest of [] \<Rightarrow> False | c # _ \<Rightarrow> c = ascii (CHR '':''))"

function highlight_json_line :: "scalar list \<Rightarrow> line" where
  "highlight_json_line [] = []"
| "highlight_json_line (c # cs) =
     (if is_whitespace c then
        (theme_base, utf8_string (c # takeWhile is_whitespace cs)) # highlight_json_line (dropWhile is_whitespace cs)
      else if c = ascii (CHR 0x22) then
        (let body = fst (scan_string False cs); rest = snd (scan_string False cs)
         in (if next_is_colon rest then json_key else json_string, utf8_string (c # body)) # highlight_json_line rest)
      else if c = ascii (CHR ''-'') \<or> is_ascii_digit c then
        (json_number, utf8_string (c # takeWhile number_tail cs)) # highlight_json_line (dropWhile number_tail cs)
      else if is_ascii_alphabetic c then
        (json_literal, utf8_string (c # takeWhile is_ascii_alphabetic cs)) #
          highlight_json_line (dropWhile is_ascii_alphabetic cs)
      else (json_punct, utf8_string [c]) # highlight_json_line cs)"
  by pat_completeness auto

termination
  by (relation "measure length") (auto simp: le_imp_less_Suc length_dropWhile_le scan_string_length)

subsection \<open>Text\<close>

definition expand_char :: "scalar \<Rightarrow> scalar list" where
  "expand_char c = (if c = ascii (CHR 0x09) then replicate 4 (ascii (CHR '' '')) else if c = ascii (CHR 0x0D) then [] else [c])"

definition printable :: "scalar list \<Rightarrow> bool" where
  "printable text = list_all (\<lambda>c. \<not> is_control c \<or> c \<in> {ascii (CHR 0x09), ascii (CHR 0x0A), ascii (CHR 0x0D)}) text"

definition as_text :: "bytes \<Rightarrow> line list option" where
  "as_text data =
     (case utf8_decode (map unat data) of
        None \<Rightarrow> None
      | Some text \<Rightarrow>
          if \<not> printable text then None
          else Some (map (\<lambda>line. [(fg White theme_base, utf8_string (concat (map expand_char line)))])
                 (split_on (ascii (CHR 0x0A)) text)))"

subsection \<open>Hex\<close>

function chunks :: "nat \<Rightarrow> 'a list \<Rightarrow> 'a list list" where
  "chunks n xs = (if xs = [] \<or> n = 0 then [] else take n xs # chunks n (drop n xs))"
  by auto

termination
  by (relation "measure (\<lambda>(n, xs). length xs)") auto

declare chunks.simps [simp del]

text \<open>\<open>{:02x}\<close> and \<open>{:08x}\<close>.\<close>

definition pad_hex :: "nat \<Rightarrow> nat \<Rightarrow> string" where
  "pad_hex width n = replicate (width - length (show_hex n)) (CHR ''0'') @ show_hex n"

definition hex_column :: "bytes \<Rightarrow> string" where
  "hex_column chunk =
     concat (map (\<lambda>(i, b). (if i = 8 then '' '' else '''') @ pad_hex 2 (unat b) @ '' '') (enumerate 0 chunk))"

definition FULL_WIDTH :: nat where
  "FULL_WIDTH = 16 * 3 + 1"

definition ascii_column :: "bytes \<Rightarrow> string" where
  "ascii_column chunk = map (\<lambda>b. if 0x20 \<le> b \<and> b < 0x7f then char_of (unat b) else CHR ''.'') chunk"

definition as_hex :: "bytes \<Rightarrow> line list" where
  "as_hex data =
     map (\<lambda>(row, chunk).
       [(fg Cyan theme_base, pad_hex 8 (row * 16) @ ''  ''),
        (fg Gray theme_base, hex_column chunk @ spaces (FULL_WIDTH - length (hex_column chunk))),
        (fg Yellow theme_base, '' |'' @ ascii_column chunk @ ''|'')])
     (enumerate 0 (chunks 16 data))"

subsection \<open>The choice\<close>

definition as_json :: "(bytes \<Rightarrow> scalar list option) \<Rightarrow> bytes \<Rightarrow> line list option" where
  "as_json pretty_json data =
     (case pretty_json data of None \<Rightarrow> None
      | Some pretty \<Rightarrow> Some (map highlight_json_line (split_on (ascii (CHR 0x0A)) pretty)))"

definition render_body :: "(bytes \<Rightarrow> scalar list option) \<Rightarrow> bytes \<Rightarrow> Rendered" where
  "render_body pretty_json data =
     (if data = [] then
        \<lparr>rendered_label = ''empty'', rendered_lines = [[(theme_label, ''(empty payload)'')]]\<rparr>
      else case as_json pretty_json data of
        Some lines \<Rightarrow> \<lparr>rendered_label = ''json'', rendered_lines = lines\<rparr>
      | None \<Rightarrow>
          (case as_text data of
             Some lines \<Rightarrow> \<lparr>rendered_label = ''text'', rendered_lines = lines\<rparr>
           | None \<Rightarrow> \<lparr>rendered_label = ''hex'', rendered_lines = as_hex data\<rparr>))"

subsection \<open>Facts\<close>

lemma char_of_codes [simp]:
  "char_of (10 :: nat) = CHR 0x0A" "char_of (32 :: nat) = CHR '' ''" "char_of (48 :: nat) = CHR ''0''"
  by code_simp+

lemma utf8_string_split: "utf8_string (takeWhile P cs) @ utf8_string (dropWhile P cs) = utf8_string cs"
  by (metis takeWhile_dropWhile_id utf8_string_simps(2))

lemma line_text_Cons [simp]: "line_text ((s, t) # l) = t @ line_text l"
  by (simp add: line_text_def)

lemma line_text_Nil [simp]: "line_text [] = ''''"
  by (simp add: line_text_def)

lemma pad_hex_2:
  assumes "n < 256"
  shows "pad_hex 2 n = [digit_char (n div 16), digit_char (n mod 16)]"
proof (cases "n < 16")
  case True
  then have "show_hex n = [digit_char n]" by (subst show_radix.simps) simp
  moreover have "digit_char 0 = CHR ''0''" by code_simp
  ultimately show ?thesis using True by (simp add: pad_hex_def numeral_2_eq_2)
next
  case False
  with assms have "n div 16 < 16" by simp
  then have "show_hex (n div 16) = [digit_char (n div 16)]" by (subst show_radix.simps) simp
  with False have "show_hex n = [digit_char (n div 16), digit_char (n mod 16)]" by (subst show_radix.simps) simp
  then show ?thesis by (simp add: pad_hex_def)
qed

lemma unat_u8: "unat (b :: u8) < 256"
proof -
  have "unat b < 2 ^ LENGTH(8)" by (rule unsigned_less)
  then show ?thesis by simp
qed

lemma digit_char_not_space: "d < 16 \<Longrightarrow> digit_char d \<noteq> CHR '' ''"
  using of_char_digit_char [of d] by (auto split: if_splits)

text \<open>Reading a hex column back: drop the spaces and pair the digits.\<close>

fun read_pairs :: "string \<Rightarrow> nat list" where
  "read_pairs (h # l # rest) = (16 * digit_value h + digit_value l) # read_pairs rest"
| "read_pairs _ = []"

definition read_hex :: "string \<Rightarrow> nat list" where
  "read_hex s = read_pairs (filter (\<lambda>c. c \<noteq> CHR '' '') s)"

lemma hex_column_digits:
  "filter (\<lambda>c. c \<noteq> CHR '' '') (concat (map (\<lambda>(i, b). (if i = 8 then '' '' else '''') @ pad_hex 2 (unat (b :: u8)) @ '' '') (enumerate k chunk))) =
     concat (map (\<lambda>b. pad_hex 2 (unat b)) chunk)"
  by (induction chunk arbitrary: k) (auto simp: pad_hex_2 unat_u8 digit_char_not_space div_less_iff_less_mult)

lemma read_pairs_bytes: "read_pairs (concat (map (\<lambda>b. pad_hex 2 (unat (b :: u8))) chunk)) = map unat chunk"
  by (induction chunk) (auto simp: pad_hex_2 unat_u8 digit_value_digit_char div_less_iff_less_mult)

lemma read_hex_column: "read_hex (hex_column chunk @ spaces n) = map unat chunk"
proof -
  have "filter (\<lambda>c. c \<noteq> CHR '' '') (spaces n) = []" by (simp add: spaces_def)
  then show ?thesis by (simp add: read_hex_def hex_column_def hex_column_digits read_pairs_bytes)
qed

lemma length_hex_column_from:
  "length (concat (map (\<lambda>(i, b). (if i = 8 then '' '' else '''') @ pad_hex 2 (unat (b :: u8)) @ '' '') (enumerate k chunk))) =
     3 * length chunk + of_bool (k \<le> 8 \<and> 8 < k + length chunk)"
  by (induction chunk arbitrary: k) (auto simp: pad_hex_2 unat_u8)

text \<open>The padding \<open>FULL_WIDTH - hex.len()\<close> never underflows.\<close>

lemma length_hex_column: "length chunk \<le> 16 \<Longrightarrow> length (hex_column chunk) \<le> FULL_WIDTH"
  unfolding hex_column_def length_hex_column_from FULL_WIDTH_def by (cases "8 < length chunk") simp_all

lemma chunks_concat: "0 < n \<Longrightarrow> concat (chunks n xs) = xs"
proof (induction n xs rule: chunks.induct)
  case (1 n xs)
  then show ?case by (subst chunks.simps) auto
qed

lemma chunks_length: "c \<in> set (chunks n xs) \<Longrightarrow> length c \<le> n"
proof (induction n xs rule: chunks.induct)
  case (1 n xs)
  then show ?case by (subst (asm) (2) chunks.simps) (auto split: if_splits)
qed

lemma length_chunks: "0 < n \<Longrightarrow> length (chunks n xs) = (length xs + (n - 1)) div n"
proof (induction n xs rule: chunks.induct)
  case (1 n xs)
  show ?case
  proof (cases "xs = []")
    case True
    with 1 show ?thesis by (subst chunks.simps) simp
  next
    case False
    have "length (chunks n (drop n xs)) = (length xs - n + (n - 1)) div n" using 1 False by simp
    moreover have "Suc ((length xs - n + (n - 1)) div n) = (length xs + (n - 1)) div n"
    proof (cases "length xs < n")
      case True
      have "1 \<le> length xs" using False by (simp add: Suc_le_eq)
      then have "n * 1 \<le> length xs + (n - 1)" "length xs + (n - 1) < n * Suc 1"
        using True by (simp_all add: mult_2_right [symmetric] less_diff_conv)
      then have "(length xs + (n - 1)) div n = 1" by (rule div_nat_eqI)
      with True show ?thesis by simp
    next
      case False
      then have "length xs + (n - 1) = (length xs - n + (n - 1)) + n" by linarith
      then have "(length xs + (n - 1)) div n = ((length xs - n + (n - 1)) + n) div n" by (rule arg_cong)
      also have "\<dots> = Suc ((length xs - n + (n - 1)) div n)" 
        using "1.prems" by (subst div_add_self2) simp_all
      finally show ?thesis by simp
    qed
    ultimately show ?thesis using 1 False by (subst chunks.simps) simp
  qed
qed

subsection \<open>Properties\<close>

text \<open>
  Claim C25. The hex dump is lossless: the hex columns of its rows, read back in order, are exactly the
  payload, every hex column is 49 characters wide, so the gutter is aligned, and there is one row per
  16 bytes begun.
\<close>

theorem hex_dump_faithful:
  "concat (map (\<lambda>row. read_hex (snd (row ! 1))) (as_hex data)) = map unat data \<and>
   list_all (\<lambda>row. length (snd (row ! 1)) = 49) (as_hex data) \<and>
   length (as_hex data) = (length data + 15) div 16"
proof (intro conjI)
  have "concat (map (\<lambda>row. read_hex (snd (row ! 1))) (as_hex data)) =
      concat (map (\<lambda>e. map unat (snd e)) (enumerate 0 (chunks 16 data)))"
    by (simp add: as_hex_def comp_def case_prod_unfold read_hex_column)
  also have "\<dots> = concat (map (map unat) (map snd (enumerate 0 (chunks 16 data))))"
    by (simp only: map_map comp_def)
  also have "\<dots> = map unat data"
    by (simp add: map_concat [symmetric] chunks_concat)
  finally show "concat (map (\<lambda>row. read_hex (snd (row ! 1))) (as_hex data)) = map unat data" .
  have "length (hex_column c @ spaces (FULL_WIDTH - length (hex_column c))) = 49" if "c \<in> set (chunks 16 data)" for c
    using length_hex_column [OF chunks_length [OF that]] by (simp add: spaces_def FULL_WIDTH_def)
  then show "list_all (\<lambda>row. length (snd (row ! 1)) = 49) (as_hex data)"
    by (auto simp: list_all_iff as_hex_def in_set_enumerate_eq)
  show "length (as_hex data) = (length data + 15) div 16"
    by (simp add: as_hex_def length_chunks)
qed

lemma highlight_text: "line_text (highlight_json_line cs) = utf8_string cs"
proof (induction cs rule: highlight_json_line.induct)
  case (2 c cs)
  have split: "utf8_string (c # takeWhile P cs) @ utf8_string (dropWhile P cs) = utf8_string (c # cs)" for P
    by (simp add: utf8_string_Cons utf8_string_split)
  have scan: "utf8_string (c # fst (scan_string False cs)) @ utf8_string (snd (scan_string False cs)) = utf8_string (c # cs)"
    by (metis append_Cons scan_string_append utf8_string_simps(2))
  have one: "utf8_string [c] @ utf8_string cs = utf8_string (c # cs)" by (simp add: utf8_string_Cons)
  consider "is_whitespace c" | "\<not> is_whitespace c" "c = ascii (CHR 0x22)"
    | "\<not> is_whitespace c" "c \<noteq> ascii (CHR 0x22)" "c = ascii (CHR ''-'') \<or> is_ascii_digit c"
    | "\<not> is_whitespace c" "c \<noteq> ascii (CHR 0x22)" "\<not> (c = ascii (CHR ''-'') \<or> is_ascii_digit c)" "is_ascii_alphabetic c"
    | "\<not> is_whitespace c" "c \<noteq> ascii (CHR 0x22)" "\<not> (c = ascii (CHR ''-'') \<or> is_ascii_digit c)" "\<not> is_ascii_alphabetic c"
    by argo
  then show ?case
  proof cases
    case 1
    with "2.IH"(1) split show ?thesis by simp
  next
    case 2
    with "2.IH"(2) scan show ?thesis by (simp add: Let_def)
  next
    case 3
    with "2.IH"(3) split show ?thesis by simp
  next
    case 4
    with "2.IH"(4) split show ?thesis by simp
  next
    case 5
    with "2.IH"(5) one show ?thesis by simp
  qed
qed simp

text \<open>
  Claim C26. Highlighting changes no text: whatever the line, and however malformed, the spans of a
  highlighted line, put together, are the line.
\<close>

theorem highlight_lossless: "line_text (highlight_json_line cs) = utf8_string cs"
  by (rule highlight_text)

lemma concat_expand_no_newline:
  "n = ascii (CHR 0x0A) \<Longrightarrow> utf8_string (concat (map expand_char (join_with n ps))) =
     join_with (CHR 0x0A) (map (\<lambda>p. utf8_string (concat (map expand_char p))) ps)"
proof (induction n ps rule: join_with.induct)
  case (3 c p q ps)
  then show ?case by (simp add: utf8_string_Cons utf8_bytes_def expand_char_def)
qed simp_all

definition expand_byte :: "u8 \<Rightarrow> string" where
  "expand_byte b = (if b = 9 then spaces 4 else if b = 13 then [] else [char_of (unat b)])"

lemma utf8_bytes_ascii: "b \<in> set (utf8_bytes c) \<Longrightarrow> b < 0x80 \<Longrightarrow> utf8_bytes c = [b] \<and> c = b"
  by (auto simp: utf8_bytes_def split: if_splits)

definition expand_nat :: "nat \<Rightarrow> string" where
  "expand_nat b = (if b = 9 then spaces 4 else if b = 13 then [] else [char_of b])"

lemma expand_utf8: "utf8_string (expand_char c) = concat (map expand_nat (utf8_bytes c))"
proof (cases "c = 9 \<or> c = 13")
  case True
  then show ?thesis
    by (auto simp: expand_char_def expand_nat_def utf8_bytes_def utf8_string_def spaces_def)
next
  case False
  then have "expand_nat b = [char_of b]" if "b \<in> set (utf8_bytes c)" for b
    using utf8_bytes_ascii [OF that] that by (cases "b < 0x80") (auto simp: expand_nat_def)
  then have "concat (map expand_nat (utf8_bytes c)) = concat (map (\<lambda>b. [char_of b]) (utf8_bytes c))"
    by (metis (mono_tags, lifting) map_eq_conv)
  with False show ?thesis by (simp add: expand_char_def utf8_string_def concat_map_singleton)
qed

lemma expand_utf8_all: "utf8_string (concat (map expand_char cs)) = concat (map expand_nat (concat (map utf8_bytes cs)))"
  by (induction cs) (simp_all add: expand_utf8)

lemma expand_nat_unat: "expand_nat (unat b) = expand_byte b"
proof -
  have "unat b = 9 \<longleftrightarrow> b = 9" "unat b = 13 \<longleftrightarrow> b = 13"
    using word_unat_eq_iff [of b 9] word_unat_eq_iff [of b 13] by simp_all
  then show ?thesis by (simp add: expand_nat_def expand_byte_def)
qed

text \<open>
  The text view shows the payload: joined by newlines, its lines are the bytes of the payload
  with every tab written as four spaces and every carriage return left out.
\<close>

theorem text_view_faithful:
  assumes "as_text data = Some lines"
  shows "join_with (CHR 0x0A) (map line_text lines) = concat (map expand_byte data)"
proof -
  from assms obtain chars where chars: "utf8_decode (map unat data) = Some chars"
    and lines: "lines = map (\<lambda>line. [(fg White theme_base, utf8_string (concat (map expand_char line)))])
      (split_on (ascii (CHR 0x0A)) chars)"
    by (auto simp: as_text_def split: option.splits if_splits)
  have "join_with (CHR 0x0A) (map line_text lines) =
      utf8_string (concat (map expand_char (join_with (ascii (CHR 0x0A)) (split_on (ascii (CHR 0x0A)) chars))))"
    by (subst concat_expand_no_newline) (simp_all add: lines comp_def)
  also have "\<dots> = concat (map expand_nat (map unat data))"
    by (simp only: join_split_on expand_utf8_all utf8_decode_bytes [OF chars])
  finally show ?thesis by (simp add: comp_def expand_nat_unat)
qed

theorem text_view_faithful_witness:
  "join_with (CHR 0x0A) (map line_text [[(fg White theme_base, ''a'')], [(fg White theme_base, ''    '')]]) = ''a'' @ [CHR 0x0A] @ ''    ''"
  using text_view_faithful [of "[97, 10, 9, 13]"]
  by (simp add: as_text_def printable_def is_control_def expand_char_def utf8_string_Cons utf8_bytes_def
      expand_byte_def spaces_def numeral_eq_Suc)

text \<open>
  The view picks the most specific form the bytes fit: an empty payload is labelled as such,
  otherwise JSON if the parser accepts it, otherwise text if it is UTF-8 without control characters
  other than tab, newline and carriage return, otherwise the hex dump; and it never shows nothing.
\<close>

theorem render_body_choice:
  "rendered_label (render_body pretty_json data) =
     (if data = [] then ''empty'' else if pretty_json data \<noteq> None then ''json''
      else if (\<exists>cs. utf8_decode (map unat data) = Some cs \<and> printable cs) then ''text'' else ''hex'') \<and>
   rendered_lines (render_body pretty_json data) \<noteq> []"
proof -
  have "as_hex data \<noteq> []" if "data \<noteq> []"
    using that length_chunks [of 16 data] by (cases data) (auto simp: as_hex_def chunks.simps)
  then show ?thesis
    by (auto simp: render_body_def as_json_def as_text_def split: option.split)
qed

end
