(* ===== verification/App.thy ===== *)
theory App
  imports Topic_Tree_Facts Widgets Message_View
begin

text \<open>
  \<^verbatim>\<open>src/ui/app.rs\<close>: the view-model of the terminal interface: what a key does, and what is drawn. The tree
  widget's state and operations, the JSON pretty-printer and the layout solver are library code: they
  are fields of an environment or arguments.
\<close>

definition MESSAGES_MIN_ROWS :: u16 where "MESSAGES_MIN_ROWS = 15"
definition MESSAGES_MIN_HEIGHT :: u16 where "MESSAGES_MIN_HEIGHT = MESSAGES_MIN_ROWS + 2"
definition BODY_MIN_HEIGHT :: u16 where "BODY_MIN_HEIGHT = 8"

datatype Focus = TreeFocus | MessagesFocus

datatype message_view = ListView | DetailView RecentMessage u16

text \<open>\<open>'t\<close> is the tree widget's state.\<close>

record 't App =
  app_header :: string
  tree_state :: 't
  focus :: Focus
  selected_seq :: "u64 option"
  message_view :: message_view
  should_quit :: bool

record ('t, 'i) ui_env =
  tree_default :: 't
  key_up :: "'t \<Rightarrow> 't"
  key_down :: "'t \<Rightarrow> 't"
  key_left :: "'t \<Rightarrow> 't"
  key_right :: "'t \<Rightarrow> 't"
  toggle_selected :: "'t \<Rightarrow> 't"
  select_first :: "'t \<Rightarrow> 't"
  select_last :: "'t \<Rightarrow> 't"
  visible_items :: "'t \<Rightarrow> 'i list \<Rightarrow> nat"
  tree_item :: "string \<Rightarrow> line \<Rightarrow> 'i list \<Rightarrow> 'i option"
  tree_leaf :: "string \<Rightarrow> line \<Rightarrow> 'i"
  tree_accepts :: "'i list \<Rightarrow> bool"
  pretty_json :: "bytes \<Rightarrow> scalar list option"

datatype key_code =
    Esc | Tab | Enter | Up | Down | Left | Right | Home | End | PageUp | PageDown | Backspace
  | Char scalar | OtherKey

datatype key_kind = Press | Repeat | Release

datatype event = Key key_kind bool key_code | OtherEvent

text \<open>The Boolean of a key event is whether its modifiers contain Control.\<close>

definition app_new :: "('t, 'i) ui_env \<Rightarrow> string \<Rightarrow> 't App" where
  "app_new env header = \<lparr>app_header = header, tree_state = tree_default env, focus = TreeFocus,
     selected_seq = None, message_view = ListView, should_quit = False\<rparr>"

subsection \<open>Text\<close>

definition format_age :: "duration \<Rightarrow> string" where
  "format_age age =
     (let secs = as_secs age
      in if secs < 1 then ''now''
         else if secs < 60 then show_nat secs @ ''s''
         else if secs < 3600 then show_nat (secs div 60) @ ''m''
         else if secs < 86400 then show_nat (secs div 3600) @ ''h''
         else show_nat (secs div 86400) @ ''d'')"

text \<open>
  \<open>{:.1}\<close> of the quotient of two numbers exactly represented as \<open>f64\<close>, the divisor a power of two, so
  that the quotient is exact: one decimal, ties to even.
\<close>

definition tenths :: "nat \<Rightarrow> nat \<Rightarrow> nat" where
  "tenths n d =
     (let q = 10 * n div d; r = 10 * n mod d
      in if d < 2 * r \<or> (d = 2 * r \<and> odd q) then q + 1 else q)"

definition show_tenths :: "nat \<Rightarrow> string" where
  "show_tenths t = show_nat (t div 10) @ ''.'' @ show_nat (t mod 10)"

definition format_size :: "nat \<Rightarrow> string" where
  "format_size n =
     (if n < 1024 then show_nat n @ ''B''
      else if n < 1024 * 1024 then show_tenths (tenths n 1024) @ ''KB''
      else show_tenths (tenths n (1024 * 1024)) @ ''MB'')"

definition labelled :: "string \<Rightarrow> string \<Rightarrow> line" where
  "labelled label val = [(theme_label, label @ '': ''), (theme_count, val)]"

definition message_row :: "RecentMessage \<Rightarrow> instant \<Rightarrow> line" where
  "message_row message now =
     (let suffix = ''  '' @ format_size (rm_original_len message) @ ''  '' @
            format_age (saturating_duration_since now (rm_seen message))
      in [(theme_label, rm_topic message), (theme_base, suffix)])"

definition detail_lines :: "(bytes \<Rightarrow> scalar list option) \<Rightarrow> RecentMessage \<Rightarrow> instant \<Rightarrow> line list" where
  "detail_lines pretty message now =
     (let body = render_body pretty (rm_data message);
          size = show_nat (rm_original_len message) @ '' bytes'' @
            (if rm_truncated message
             then '' (showing first '' @ show_nat (length (rm_data message)) @ '')'' else '''')
      in [labelled ''Topic'' (rm_topic message),
          labelled ''Age'' (format_age (saturating_duration_since now (rm_seen message))),
          labelled ''Size'' size,
          labelled ''Format'' (rendered_label body)] @
         (if rm_attributes message = [] then []
          else [(theme_title, ''Attributes:'')] #
            map (\<lambda>(key, val). [(theme_label, ''  '' @ key @ '': ''), (fg White theme_base, val)])
              (rm_attributes message)) @
         [[(theme_border, concat (replicate 8 [CHR 0xE2, CHR 0x94, CHR 0x80]))]] @
         rendered_lines body)"

subsection \<open>Keys\<close>

text \<open>\<open>iter().position(..)\<close>\<close>

fun position :: "('a \<Rightarrow> bool) \<Rightarrow> 'a list \<Rightarrow> nat option" where
  "position P [] = None"
| "position P (x # xs) = (if P x then Some 0 else map_option Suc (position P xs))"

definition index_of_seq :: "AppState \<Rightarrow> u64 \<Rightarrow> nat option" where
  "index_of_seq state seq = position (\<lambda>m. rm_seq m = seq) (recent_messages state)"

text \<open>\<open>VecDeque::get\<close>, \<open>front\<close> and \<open>back\<close>.\<close>

definition get_at :: "'a list \<Rightarrow> nat \<Rightarrow> 'a option" where
  "get_at xs i = (if i < length xs then Some (xs ! i) else None)"

definition front_of :: "'a list \<Rightarrow> 'a option" where
  "front_of xs = (case xs of [] \<Rightarrow> None | x # _ \<Rightarrow> Some x)"

definition back_of :: "'a list \<Rightarrow> 'a option" where
  "back_of xs = (if xs = [] then None else Some (last xs))"

definition toggle_focus :: "AppState \<Rightarrow> 't App \<Rightarrow> 't App" where
  "toggle_focus state app =
     (case focus app of
        TreeFocus \<Rightarrow> app\<lparr>focus := MessagesFocus, message_view := ListView,
          selected_seq := map_option rm_seq (back_of (recent_messages state))\<rparr>
      | MessagesFocus \<Rightarrow> app\<lparr>focus := TreeFocus, message_view := ListView, selected_seq := None\<rparr>)"

definition handle_tree_key :: "('t, 'i) ui_env \<Rightarrow> key_code \<Rightarrow> 't App \<Rightarrow> 't App" where
  "handle_tree_key env code app =
     (if code = Esc then app\<lparr>should_quit := True\<rparr>
      else if code = Up \<or> code = Char (ascii CHR ''k'') then app\<lparr>tree_state := key_up env (tree_state app)\<rparr>
      else if code = Down \<or> code = Char (ascii CHR ''j'') then app\<lparr>tree_state := key_down env (tree_state app)\<rparr>
      else if code = Left \<or> code = Char (ascii CHR ''h'') then app\<lparr>tree_state := key_left env (tree_state app)\<rparr>
      else if code = Right \<or> code = Char (ascii CHR ''l'') then app\<lparr>tree_state := key_right env (tree_state app)\<rparr>
      else if code = Enter \<or> code = Char (ascii CHR '' '') then app\<lparr>tree_state := toggle_selected env (tree_state app)\<rparr>
      else if code = Home then app\<lparr>tree_state := select_first env (tree_state app)\<rparr>
      else if code = End then app\<lparr>tree_state := select_last env (tree_state app)\<rparr>
      else app)"

definition move_selection :: "AppState \<Rightarrow> int \<Rightarrow> 't App \<Rightarrow> 't App" where
  "move_selection state delta app =
     (let messages = recent_messages state
      in if messages = [] then app\<lparr>selected_seq := None\<rparr>
         else
           (let current = int (case Option.bind (selected_seq app) (index_of_seq state) of
                  Some i \<Rightarrow> i | None \<Rightarrow> length messages - 1);
                next_index = nat (max 0 (min (int (length messages) - 1) (current + delta)))
            in app\<lparr>selected_seq := map_option rm_seq (get_at messages next_index)\<rparr>))"

definition open_selected :: "AppState \<Rightarrow> 't App \<Rightarrow> 't App" where
  "open_selected state app =
     (case Option.bind (Option.bind (selected_seq app) (index_of_seq state)) (get_at (recent_messages state)) of
        Some message \<Rightarrow> app\<lparr>message_view := DetailView message 0\<rparr>
      | None \<Rightarrow> app)"

definition scroll_down :: "(bytes \<Rightarrow> scalar list option) \<Rightarrow> instant \<Rightarrow> RecentMessage \<Rightarrow> u16 \<Rightarrow> u16 \<Rightarrow> u16" where
  "scroll_down pretty now message n scroll =
     (let limit = of_nat (length (detail_lines pretty message now))
      in min (saturating_add scroll n) (saturating_sub limit 1))"

definition handle_messages_key ::
  "('t, 'i) ui_env \<Rightarrow> instant \<Rightarrow> key_code \<Rightarrow> AppState \<Rightarrow> 't App \<Rightarrow> 't App" where
  "handle_messages_key env now code state app =
     (case message_view app of
        DetailView message scroll \<Rightarrow>
          (if code = Esc \<or> code = Left \<or> code = Backspace then app\<lparr>message_view := ListView\<rparr>
           else if code = Up \<or> code = Char (ascii CHR ''k'') then
             app\<lparr>message_view := DetailView message (saturating_sub scroll 1)\<rparr>
           else if code = Down \<or> code = Char (ascii CHR ''j'') then
             app\<lparr>message_view := DetailView message (scroll_down (pretty_json env) now message 1 scroll)\<rparr>
           else if code = PageUp then app\<lparr>message_view := DetailView message (saturating_sub scroll 10)\<rparr>
           else if code = PageDown then
             app\<lparr>message_view := DetailView message (scroll_down (pretty_json env) now message 10 scroll)\<rparr>
           else if code = Home then app\<lparr>message_view := DetailView message 0\<rparr>
           else app)
      | ListView \<Rightarrow>
          (if code = Esc then app\<lparr>focus := TreeFocus, selected_seq := None\<rparr>
           else if code = Up \<or> code = Char (ascii CHR ''k'') then move_selection state (- 1) app
           else if code = Down \<or> code = Char (ascii CHR ''j'') then move_selection state 1 app
           else if code = Home then app\<lparr>selected_seq := map_option rm_seq (front_of (recent_messages state))\<rparr>
           else if code = End then app\<lparr>selected_seq := map_option rm_seq (back_of (recent_messages state))\<rparr>
           else if code = Enter then open_selected state app
           else app))"

fun handle_event :: "('t, 'i) ui_env \<Rightarrow> instant \<Rightarrow> event \<Rightarrow> AppState \<Rightarrow> 't App \<Rightarrow> 't App" where
  "handle_event env now OtherEvent state app = app"
| "handle_event env now (Key kind control code) state app =
     (if kind \<noteq> Press then app
      else if control \<and> code = Char (ascii CHR ''c'') then app\<lparr>should_quit := True\<rparr>
      else if code = Char (ascii CHR ''q'') then app\<lparr>should_quit := True\<rparr>
      else if code = Tab then toggle_focus state app
      else case focus app of
        TreeFocus \<Rightarrow> handle_tree_key env code app
      | MessagesFocus \<Rightarrow> handle_messages_key env now code state app)"

subsection \<open>Drawing\<close>

definition body_height :: "u16 \<Rightarrow> u16 \<Rightarrow> u16" where
  "body_height area_rows visible_rows =
     (let available = saturating_sub area_rows 2;
          desired = max (saturating_add visible_rows 2) BODY_MIN_HEIGHT;
          ceiling = max (saturating_sub available MESSAGES_MIN_HEIGHT) BODY_MIN_HEIGHT
      in min desired ceiling)"

definition border_style :: "'t App \<Rightarrow> Focus \<Rightarrow> style" where
  "border_style app panel = (if focus app = panel then theme_border_focused else theme_border)"

definition arrow :: "nat \<Rightarrow> string" where
  "arrow n = [CHR 0xE2, CHR 0x86, char_of n]"

definition hints :: "'t App \<Rightarrow> (string \<times> string) list" where
  "hints app =
     (case focus app of
        TreeFocus \<Rightarrow>
          [(arrow 0x91 @ arrow 0x93, ''Move''), (arrow 0x90 @ arrow 0x92, ''Collapse/Expand''), (''Enter'', ''Toggle''),
           (''Tab'', ''Messages''), (''q'', ''Quit'')]
      | MessagesFocus \<Rightarrow>
          (case message_view app of
             ListView \<Rightarrow> [(arrow 0x91 @ arrow 0x93, ''Select''), (''Enter'', ''View''), (''Tab'', ''Topics''),
               (''Esc'', ''Back''), (''q'', ''Quit'')]
           | DetailView _ _ \<Rightarrow> [(arrow 0x91 @ arrow 0x93, ''Scroll''), (''Esc'', ''Back''), (''Tab'', ''Topics''),
               (''q'', ''Quit'')]))"

datatype 'i tree_panel = TreePlaceholder Paragraph | TreeShown "'i list"

record 'i drawn_tree =
  dt_title :: span
  dt_border :: style
  dt_panel :: "'i tree_panel"

datatype messages_panel =
    DetailPanel (panel_title: string) "line list" u16
  | NoMessages (panel_title: string) line
  | MessageList (panel_title: string) "line list" nat bool

record 'i screen =
  sc_body_height :: u16
  sc_title :: Paragraph
  sc_connection :: Paragraph
  sc_tree :: "'i drawn_tree"
  sc_statistics :: Paragraph
  sc_messages :: messages_panel
  sc_messages_border :: style
  sc_status :: Paragraph

text \<open>\<open>Tree::new\<close> refuses items with clashing identifiers; its \<open>expect\<close> then panics.\<close>

definition render_tree :: "('t, 'i) ui_env \<Rightarrow> 't App \<Rightarrow> AppState \<Rightarrow> 'i list \<Rightarrow> 'i drawn_tree option" where
  "render_tree env app state items =
     (let title = (theme_title, '' Topics ('' @ show_nat (topic_count state) @ '') '');
          border = border_style app TreeFocus
      in if items = [] then Some \<lparr>dt_title = title, dt_border = border, dt_panel = TreePlaceholder empty_placeholder\<rparr>
         else if tree_accepts env items
         then Some \<lparr>dt_title = title, dt_border = border, dt_panel = TreeShown items\<rparr>
         else None)"

definition list_index :: "'t App \<Rightarrow> AppState \<Rightarrow> nat" where
  "list_index app state =
     (if focus app = MessagesFocus
      then (case Option.bind (selected_seq app) (index_of_seq state) of
              Some i \<Rightarrow> i | None \<Rightarrow> length (recent_messages state) - 1)
      else length (recent_messages state) - 1)"

definition render_messages :: "('t, 'i) ui_env \<Rightarrow> 't App \<Rightarrow> AppState \<Rightarrow> instant \<Rightarrow> messages_panel" where
  "render_messages env app state now =
     (case message_view app of
        DetailView message scroll \<Rightarrow>
          (let lines = detail_lines (pretty_json env) message now;
               limit = of_nat (length lines)
           in DetailPanel ('' Message #'' @ show_nat (unat (rm_seq message)) @ '' '') lines
                (min scroll (saturating_sub limit 1)))
      | ListView \<Rightarrow>
          (let title = '' Messages ('' @ show_nat (length (recent_messages state)) @ '') ''
           in if recent_messages state = []
              then NoMessages title [(theme_label, ''Published messages appear here as they arrive.'')]
              else MessageList title (map (\<lambda>message. message_row message now) (recent_messages state))
                     (list_index app state) (focus app = MessagesFocus)))"

definition render ::
  "('t, 'i) ui_env \<Rightarrow> instant \<Rightarrow> u16 \<Rightarrow> u16 \<Rightarrow> AppState \<Rightarrow> bool \<Rightarrow> 't App \<Rightarrow> 'i screen option" where
  "render env now area_height stats_width state connected app =
     (case build (tree_item env) (tree_leaf env) state of
        None \<Rightarrow> None
      | Some tree_items \<Rightarrow>
          (let visible_rows = of_nat (visible_items env (tree_state app) tree_items)
           in case render_tree env app state tree_items of
                None \<Rightarrow> None
              | Some drawn \<Rightarrow> Some
                  \<lparr>sc_body_height = body_height area_height visible_rows, sc_title = title_bar (app_header app),
                   sc_connection = connection_status connected, sc_tree = drawn,
                   sc_statistics = statistics state now stats_width,
                   sc_messages = render_messages env app state now,
                   sc_messages_border = border_style app MessagesFocus,
                   sc_status = status_bar (hints app)\<rparr>))"

end
