(* ===== verification/App_Facts.thy ===== *)
theory App_Facts
  imports App
begin

text \<open>What keys do to the view, and what the screen shows.\<close>

subsection \<open>Sessions\<close>

text \<open>A session: events, each with the snapshot and the time at which it is handled.\<close>

type_synonym session = "(event \<times> AppState \<times> instant) list"

definition app_step :: "('t, 'i) ui_env \<Rightarrow> event \<times> AppState \<times> instant \<Rightarrow> 't App \<Rightarrow> 't App" where
  "app_step env e app = handle_event env (snd (snd e)) (fst e) (fst (snd e)) app"

lemma length_detail_lines: "length (detail_lines pretty m now) = length (detail_lines pretty m now')"
  by (simp add: detail_lines_def Let_def)

lemma detail_lines_pos [simp]: "detail_lines pretty m now \<noteq> []"
  by (simp add: detail_lines_def Let_def)

definition scroll_ok :: "(bytes \<Rightarrow> scalar list option) \<Rightarrow> message_view \<Rightarrow> bool" where
  "scroll_ok pretty v \<longleftrightarrow> (case v of ListView \<Rightarrow> True
     | DetailView m s \<Rightarrow> \<forall>now. length (detail_lines pretty m now) < 65536 \<longrightarrow> unat s < length (detail_lines pretty m now))"

definition app_inv :: "('t, 'i) ui_env \<Rightarrow> 't App \<Rightarrow> bool" where
  "app_inv env app \<longleftrightarrow>
     (focus app = TreeFocus \<longrightarrow> message_view app = ListView \<and> selected_seq app = None) \<and>
     scroll_ok (pretty_json env) (message_view app)"

lemma unat_u16: "n < 65536 \<Longrightarrow> unat (of_nat n :: u16) = n"
  by (simp add: unat_of_nat take_bit_nat_eq_self)

lemma unat_min_u16: "unat (min a (b :: u16)) = min (unat a) (unat b)"
  by (simp add: min_def word_le_nat_alt)

lemma unat_max_u16: "unat (max a (b :: u16)) = max (unat a) (unat b)"
  by (simp add: max_def word_le_nat_alt)

lemma scroll_ok_down:
  "scroll_ok pretty (DetailView m (scroll_down pretty now m n s))"
proof -
  have "unat (scroll_down pretty now m n s) < length (detail_lines pretty m now')"
    if "length (detail_lines pretty m now') < 65536" for now'
  proof -
    have len: "length (detail_lines pretty m now) < 65536" using that length_detail_lines [of pretty m now now'] by simp
    have "unat (scroll_down pretty now m n s) \<le> length (detail_lines pretty m now) - 1"
      by (simp add: scroll_down_def Let_def unat_min_u16 unat_saturating_sub unat_u16 [OF len])
    also have "\<dots> < length (detail_lines pretty m now)" by (simp add: diff_less)
    finally show ?thesis using length_detail_lines [of pretty m now now'] by simp
  qed
  then show ?thesis by (simp add: scroll_ok_def)
qed

lemma scroll_ok_up: "scroll_ok pretty (DetailView m s) \<Longrightarrow> scroll_ok pretty (DetailView m (saturating_sub s n))"
  by (auto simp: scroll_ok_def unat_saturating_sub)

lemma scroll_ok_zero [simp]: "scroll_ok pretty (DetailView m 0)" "scroll_ok pretty ListView"
  by (simp_all add: scroll_ok_def)

lemma move_selection_frame [simp]:
  "focus (move_selection state d app) = focus app" "message_view (move_selection state d app) = message_view app"
  "should_quit (move_selection state d app) = should_quit app"
  by (simp_all add: move_selection_def Let_def)

lemma open_selected_frame [simp]:
  "focus (open_selected state app) = focus app" "should_quit (open_selected state app) = should_quit app"
  by (simp_all add: open_selected_def split: option.split)

lemma open_selected_inv: "app_inv env app \<Longrightarrow> focus app = MessagesFocus \<Longrightarrow> app_inv env (open_selected state app)"
  by (auto simp: open_selected_def app_inv_def split: option.split)

lemma handle_tree_key_inv: "app_inv env app \<Longrightarrow> app_inv env (handle_tree_key env code app)"
  by (simp add: handle_tree_key_def app_inv_def)

lemma handle_messages_key_inv:
  assumes "app_inv env app" and "focus app = MessagesFocus"
  shows "app_inv env (handle_messages_key env now code state app)"
proof (cases "message_view app")
  case ListView
  have "app_inv env (open_selected state app)" using assms by (rule open_selected_inv)
  with assms ListView show ?thesis by (simp add: handle_messages_key_def app_inv_def)
next
  case (DetailView m s)
  with assms have "scroll_ok (pretty_json env) (DetailView m s)" by (simp add: app_inv_def)
  from scroll_ok_up [OF this] have "scroll_ok (pretty_json env) (DetailView m (saturating_sub s n))" for n .
  with assms DetailView show ?thesis by (simp add: handle_messages_key_def app_inv_def scroll_ok_down)
qed

lemma toggle_focus_inv: "app_inv env (toggle_focus state app)"
  by (cases "focus app") (simp_all add: toggle_focus_def app_inv_def)

lemma app_step_inv: "app_inv env app \<Longrightarrow> app_inv env (app_step env e app)"
proof (cases "fst e")
  case (Key kind control code)
  assume inv: "app_inv env app"
  then have "app_inv env (app\<lparr>should_quit := True\<rparr>)" by (simp add: app_inv_def)
  with inv Key show ?thesis
    by (cases "focus app") (simp_all add: app_step_def toggle_focus_inv handle_tree_key_inv handle_messages_key_inv)
qed (simp add: app_step_def)

interpretation keys: event_machine "app_step env" "app_inv env" "app_new env header"
  by unfold_locales (simp_all add: app_step_inv, simp add: app_inv_def app_new_def)

lemma session_inv: "app_inv env (fold (app_step env) session (app_new env header))"
  by (rule keys.reachable_inv)

subsection \<open>The list\<close>

lemma position_Some: "position P xs = Some i \<Longrightarrow> i < length xs \<and> P (xs ! i)"
  by (induction xs arbitrary: i) (auto split: if_splits)

lemma position_None: "position P xs = None \<longleftrightarrow> (\<forall>x \<in> set xs. \<not> P x)"
  by (induction xs) auto

lemma position_distinct:
  assumes "distinct (map f xs)" and "i < length xs"
  shows "position (\<lambda>x. f x = f (xs ! i)) xs = Some i"
  using assms
proof (induction xs arbitrary: i)
  case (Cons x xs)
  then show ?case by (cases i) (auto dest: nth_mem)
qed simp

lemma list_index_selected:
  assumes "focus app = MessagesFocus" and "distinct (map rm_seq (recent_messages state))" and "i < length (recent_messages state)"
    and "selected_seq app = Some (rm_seq (recent_messages state ! i))"
  shows "list_index app state = i"
  using assms by (simp add: list_index_def index_of_seq_def position_distinct)

lemma list_index_less:
  "recent_messages state \<noteq> [] \<Longrightarrow> list_index app state < length (recent_messages state)"
  by (cases "selected_seq app") (auto simp: list_index_def index_of_seq_def dest: position_Some split: option.split)

lemma move_selection_eq:
  assumes "focus app = MessagesFocus" and "recent_messages state \<noteq> []"
  shows "selected_seq (move_selection state d app) = Some (rm_seq (recent_messages state !
    nat (max 0 (min (int (length (recent_messages state)) - 1) (int (list_index app state) + d)))))"
proof -
  have "nat (max 0 (min (int (length (recent_messages state)) - 1) k)) < length (recent_messages state)" for k
    using assms(2) by (cases "recent_messages state") auto
  then show ?thesis
    using assms by (simp add: move_selection_def get_at_def list_index_def Let_def)
qed

subsection \<open>Properties\<close>

text \<open>
  Leaving the messages panel resets it: after any session, with any snapshots, either the
  messages panel has the focus or it shows the live list with nothing selected, so it follows the
  newest message.
\<close>

theorem focus_governs_view:
  "let app = fold (app_step env) session (app_new env header) in
     focus app = MessagesFocus \<or>
     (focus app = TreeFocus \<and> message_view app = ListView \<and> selected_seq app = None \<and>
      list_index app state = length (recent_messages state) - 1)"
proof -
  let ?app = "fold (app_step env) session (app_new env header)"
  have "app_inv env ?app" by (rule session_inv)
  then show ?thesis by (cases "focus ?app") (simp_all add: Let_def app_inv_def list_index_def)
qed

text \<open>
  Claim C35. The detail view never scrolls past the end: after any session, the scroll position of an
  open message is a line of it, as long as the message has fewer than 65536 lines.
\<close>

theorem detail_scroll_in_range:
  assumes "message_view (fold (app_step env) session (app_new env header)) = DetailView m s"
    and "length (detail_lines (pretty_json env) m now) < 65536"
  shows "unat s < length (detail_lines (pretty_json env) m now)"
  using session_inv [of env session header] assms by (simp add: app_inv_def scroll_ok_def)

text \<open>
  Beyond that the scroll range wraps: the limit is the number of lines cast to 16 bits, so in
  a message of 65536 lines or more every step down lands within what is left after dropping 65536
  lines, and the rest of the message cannot be reached.
\<close>

theorem long_message_scroll_wraps:
  assumes "65536 \<le> length (detail_lines pretty m now)" and "length (detail_lines pretty m now) < 131072"
  shows "unat (scroll_down pretty now m n s) \<le> length (detail_lines pretty m now) - 65537"
proof -
  have "unat (of_nat (length (detail_lines pretty m now)) :: u16) = length (detail_lines pretty m now) - 65536"
    using assms by (simp add: unat_of_nat take_bit_eq_mod mod_if)
  then show ?thesis
    by (simp add: scroll_down_def Let_def unat_min_u16 unat_saturating_sub)
qed

text \<open>
  What quits: an event ends the session exactly when it is the press of \<open>q\<close>, of Control-C, or
  of Escape while the tree has the focus; repeats and releases do nothing.
\<close>

theorem quits_exactly:
  "should_quit (handle_event env now event state app) \<longleftrightarrow>
     should_quit app \<or>
     (\<exists>control code. event = Key Press control code \<and>
        (code = Char (ascii (CHR ''q'')) \<or> control \<and> code = Char (ascii (CHR ''c'')) \<or>
         code = Esc \<and> focus app = TreeFocus))"
proof (cases event)
  case (Key kind control code)
  have tree: "should_quit (handle_tree_key env code app) \<longleftrightarrow> should_quit app \<or> code = Esc"
    by (simp add: handle_tree_key_def)
  have messages: "should_quit (handle_messages_key env now code state app) = should_quit app"
    by (cases "message_view app") (simp_all add: handle_messages_key_def)
  have toggle: "should_quit (toggle_focus state app) = should_quit app"
    by (cases "focus app") (simp_all add: toggle_focus_def)
  show ?thesis
    unfolding Key by (cases "focus app") (auto simp: tree messages toggle)
qed simp

text \<open>
  The arrow keys move the highlighted row by one and stop at the ends: with the message list
  focused, the row highlighted after Up, Down, Home and End is the one above, the one below, the first
  and the last.
\<close>

theorem arrows_move_highlight:
  assumes "focus app = MessagesFocus" and "message_view app = ListView"
    and "distinct (map rm_seq (recent_messages state))" and "recent_messages state \<noteq> []"
  shows "let row = (\<lambda>code. list_index (handle_event env now (Key Press control code) state app) state);
             last_row = length (recent_messages state) - 1
         in row Up = list_index app state - 1 \<and> row Down = min (list_index app state + 1) last_row \<and>
            row Home = 0 \<and> row End = last_row"
proof -
  let ?ms = "recent_messages state" and ?i = "list_index app state"
  have i: "?i < length ?ms" by (rule list_index_less [OF assms(4)])
  have row: "list_index (move_selection state d app) state = nat (max 0 (min (int (length ?ms) - 1) (int ?i + d)))" for d
    using assms move_selection_eq [OF assms(1,4), of d]
    by (intro list_index_selected) (cases ?ms; auto)+
  have up: "nat (max 0 (min (int (length ?ms) - 1) (int ?i - 1))) = ?i - 1"
    and down: "nat (max 0 (min (int (length ?ms) - 1) (int ?i + 1))) = min (?i + 1) (length ?ms - 1)"
    using i by linarith+
  have home: "list_index (app\<lparr>selected_seq := map_option rm_seq (front_of ?ms)\<rparr>) state = 0"
    using assms by (intro list_index_selected) (cases ?ms; simp add: front_of_def)+
  have "end": "list_index (app\<lparr>selected_seq := map_option rm_seq (back_of ?ms)\<rparr>) state = length ?ms - 1"
    using assms by (intro list_index_selected) (auto simp: back_of_def last_conv_nth)
  show ?thesis
    using assms(1,2) row [of "- 1"] row [of 1] up down home "end"
    by (simp add: Let_def handle_messages_key_def)
qed

text \<open>
  Claim C27. The selection is anchored to its message: however the buffer has rotated, as long as the
  selected message is still in it, the highlighted row is that message's.
\<close>

theorem selection_anchored:
  assumes "focus app = MessagesFocus" and "selected_seq app = Some seq"
    and "seq \<in> rm_seq ` set (recent_messages state)"
  shows "rm_seq (recent_messages state ! list_index app state) = seq"
proof -
  have "index_of_seq state seq \<noteq> None"
    using assms(3) by (auto simp: index_of_seq_def position_None)
  then obtain i where "index_of_seq state seq = Some i" by auto
  with assms(1,2) show ?thesis
    by (auto simp: list_index_def index_of_seq_def dest: position_Some)
qed

text \<open>
  Enter opens the highlighted message, but only while the selected one is in the buffer: once
  it has been rotated out, or when nothing was selected, a row is still highlighted, and Enter does
  nothing.
\<close>

theorem enter_opens_selected_only:
  assumes "focus app = MessagesFocus" and "message_view app = ListView"
  shows "handle_event env now (Key Press control Enter) state app =
    (if \<exists>m \<in> set (recent_messages state). selected_seq app = Some (rm_seq m)
     then app\<lparr>message_view := DetailView (recent_messages state ! list_index app state) 0\<rparr> else app)"
proof -
  have enter: "handle_event env now (Key Press control Enter) state app = open_selected state app"
    using assms by (simp add: handle_messages_key_def)
  show ?thesis
  proof (cases "\<exists>m \<in> set (recent_messages state). selected_seq app = Some (rm_seq m)")
    case True
    then obtain m where m: "m \<in> set (recent_messages state)" "selected_seq app = Some (rm_seq m)" by auto
    then have "index_of_seq state (rm_seq m) \<noteq> None" by (auto simp: index_of_seq_def position_None)
    then obtain i where "index_of_seq state (rm_seq m) = Some i" by auto
    moreover from this have "i < length (recent_messages state)"
      by (auto simp: index_of_seq_def dest: position_Some)
    ultimately show ?thesis
      using m True assms unfolding enter by (auto simp: open_selected_def get_at_def list_index_def)
  next
    case False
    then have "Option.bind (selected_seq app) (index_of_seq state) = None"
      by (cases "selected_seq app") (auto simp: index_of_seq_def position_None)
    with False show ?thesis unfolding enter by (auto simp: open_selected_def)
  qed
qed

text \<open>
  The layout keeps its promises in 16-bit arithmetic: the body is as tall as the tree needs,
  but leaves the messages panel its minimum and never falls below the height of the statistics.
\<close>

theorem body_height_exact:
  "unat (body_height area_rows visible_rows) = max 8 (min (unat visible_rows + 2) (unat area_rows - 19))"
proof -
  have "unat area_rows < 2 ^ LENGTH(16)" "unat visible_rows < 2 ^ LENGTH(16)" by (rule unsigned_less)+
  then show ?thesis
    by (simp add: body_height_def Let_def unat_min_u16 unat_max_u16 unat_saturating_sub unat_saturating_add
        BODY_MIN_HEIGHT_def MESSAGES_MIN_HEIGHT_def MESSAGES_MIN_ROWS_def)
qed

text \<open>
  Given the tree widget's contract, a frame is drawn for every state the program can hold whose topic
  names are free of the separator, whatever the size of the terminal.
\<close>

lemma render_total:
  assumes "tree_widget (tree_item env) (tree_leaf env) ident"
    and "\<forall>items. distinct (map ident items) \<longrightarrow> tree_accepts env items"
    and "maps_ok state" and "\<forall>e \<in> set (topics state). CHR 0x01 \<notin> set (fst e)"
  shows "\<exists>screen. render env now area_height stats_width state connected app = Some screen"
proof -
  obtain items where "build (tree_item env) (tree_leaf env) state = Some items" "distinct (map ident items)"
    using build_total [OF assms(1,3,4)] by blast
  moreover from this(2) have "tree_accepts env items" using assms(2) by blast
  ultimately show ?thesis by (simp add: render_def render_tree_def Let_def)
qed

subsection \<open>A concrete session\<close>

definition sample_ui :: "(nat, tree_item) ui_env" where
  "sample_ui = \<lparr>tree_default = 0, key_up = (\<lambda>t. t - 1), key_down = Suc, key_left = id, key_right = id,
     toggle_selected = id, select_first = (\<lambda>_. 0), select_last = id, visible_items = (\<lambda>_ items. length items),
     tree_item = tree_item_new, tree_leaf = tree_item_leaf,
     tree_accepts = (\<lambda>items. distinct (map tree_item_id items)), pretty_json = (\<lambda>_. None)\<rparr>"

definition sample_recent :: "u64 \<Rightarrow> bytes \<Rightarrow> RecentMessage" where
  "sample_recent seq data = \<lparr>rm_seq = seq, rm_topic = ''t'', rm_data = data, rm_attributes = [],
     rm_original_len = length data, rm_truncated = False, rm_seen = 0\<rparr>"

definition sample_state :: AppState where
  "sample_state = default_state\<lparr>recent_messages := [sample_recent 3 [104], sample_recent 4 [105], sample_recent 5 [106]]\<rparr>"

definition sample_app :: "nat App" where
  "sample_app = \<lparr>app_header = ''h'', tree_state = 0, focus = MessagesFocus, selected_seq = Some 4,
     message_view = ListView, should_quit = False\<rparr>"

lemmas sample_ui_defs = sample_ui_def sample_recent_def sample_state_def sample_app_def

theorem arrows_move_highlight_witness:
  "list_index (handle_event sample_ui 0 (Key Press False Up) sample_state sample_app) sample_state = 0"
proof -
  have sample: "focus sample_app = MessagesFocus" "message_view sample_app = ListView"
    "distinct (map rm_seq (recent_messages sample_state))" "recent_messages sample_state \<noteq> []"
    "list_index sample_app sample_state = 1"
    by (simp_all add: sample_ui_defs list_index_def index_of_seq_def)
  from arrows_move_highlight [OF sample(1-4), of sample_ui 0 False]
  have "list_index (handle_event sample_ui 0 (Key Press False Up) sample_state sample_app) sample_state =
      list_index sample_app sample_state - 1"
    unfolding Let_def by (rule conjunct1)
  then show ?thesis by (simp only: sample)
qed

theorem selection_anchored_witness:
  "rm_seq (recent_messages sample_state ! list_index sample_app sample_state) = 4"
  by (rule selection_anchored) (simp_all add: sample_ui_defs)

theorem enter_opens_selected_only_witness:
  "handle_event sample_ui 0 (Key Press False Enter) default_state sample_app = sample_app \<and>
   message_view (handle_event sample_ui 0 (Key Press False Enter) sample_state sample_app) = DetailView (sample_recent 4 [105]) 0"
  using enter_opens_selected_only [of sample_app sample_ui 0 False default_state]
    enter_opens_selected_only [of sample_app sample_ui 0 False sample_state]
  by (simp add: sample_ui_defs state_defs list_index_def index_of_seq_def)

text \<open>Tab, Enter and a step down in a message of one line.\<close>

definition sample_session :: session where
  "sample_session = [(Key Press False Tab, sample_state, 0), (Key Press False Enter, sample_state, 0),
     (Key Press False Down, sample_state, 0)]"

lemma sample_session_view:
  "\<exists>s. message_view (fold (app_step sample_ui) sample_session (app_new sample_ui ''h'')) =
     DetailView (sample_recent 5 [106]) s"
  by (simp add: sample_session_def app_step_def app_new_def toggle_focus_def handle_messages_key_def
      open_selected_def sample_state_def sample_recent_def back_of_def index_of_seq_def get_at_def)

lemma sample_lines: "length (detail_lines (pretty_json sample_ui) (sample_recent 5 [106]) 0) = 6"
  by (simp add: detail_lines_def Let_def sample_ui_def sample_recent_def render_body_def as_json_def
      as_text_def printable_def is_control_def)

theorem detail_scroll_in_range_witness:
  "\<exists>s. message_view (fold (app_step sample_ui) sample_session (app_new sample_ui ''h'')) =
     DetailView (sample_recent 5 [106]) s \<and> unat s < 6"
proof -
  obtain s where s: "message_view (fold (app_step sample_ui) sample_session (app_new sample_ui ''h'')) =
     DetailView (sample_recent 5 [106]) s" using sample_session_view by blast
  from detail_scroll_in_range [OF this, of 0] s show ?thesis by (simp add: sample_lines)
qed

text \<open>A payload of newlines, no longer than the default capture limit of 65536 bytes.\<close>

lemma utf8_newlines: "utf8_decode (replicate n 10) = Some (replicate n 10)"
  by (induction n) simp_all

lemma split_newlines: "length (split_on c (replicate n c)) = Suc n"
  by (induction n) simp_all

lemma newline_lines:
  "0 < n \<Longrightarrow> length (detail_lines (\<lambda>_. None) (sample_recent 1 (replicate n 10)) now) = n + 6"
  by (simp add: detail_lines_def Let_def sample_recent_def render_body_def as_json_def as_text_def
      utf8_newlines printable_def list_all_iff split_newlines)

theorem long_message_scroll_wraps_witness:
  "unat (scroll_down (\<lambda>_. None) 0 (sample_recent 1 (replicate 65535 10)) 1 0) \<le> 4"
  using long_message_scroll_wraps [of "\<lambda>_. None" "sample_recent 1 (replicate 65535 10)" 0 1 0]
  by (simp only: newline_lines [of 65535]) simp

end
