(* ===== verification/Ui_Loop.thy ===== *)
theory Ui_Loop
  imports App_Facts
begin

text \<open>
  \<^verbatim>\<open>src/ui/mod.rs\<close>: the loop that draws frames and waits for the next input event, tick, snapshot or
  change of the connection status. An event is one branch of the \<open>select!\<close>.
\<close>

datatype loop_event =
    Input event | InputEnded | TickElapsed | SnapshotChanged AppState | SnapshotsGone
  | ConnectedChanged bool | ConnectedGone

text \<open>
  How the loop stands: \<open>Looping\<close>, left with \<open>Ok\<close> or with the error of a draw the terminal refused, or
  \<open>Panicked\<close> in drawing.
\<close>

datatype loop_at = Looping | Left_Ok | Left_Err | Panicked

record ('t, 'i) ui_loop =
  lp_app :: "'t App"
  lp_snapshot :: AppState
  lp_connected :: bool
  lp_at :: loop_at
  lp_frames :: "'i screen list"

text \<open>
  One iteration of the loop: the branch of the \<open>select!\<close> that is taken, the time, the size of the
  terminal (height, and width of the statistics panel), and whether the terminal accepts the frame.
\<close>

record iteration =
  it_event :: loop_event
  it_now :: instant
  it_dims :: "u16 \<times> u16"
  it_accepted :: bool

text \<open>The draw at the head of the loop.\<close>

definition draw_frame :: "('t, 'i) ui_env \<Rightarrow> iteration \<Rightarrow> ('t, 'i) ui_loop \<Rightarrow> ('t, 'i) ui_loop" where
  "draw_frame env it l =
     (case render env (it_now it) (fst (it_dims it)) (snd (it_dims it)) (lp_snapshot l) (lp_connected l) (lp_app l) of
        None \<Rightarrow> l\<lparr>lp_at := Panicked\<rparr>
      | Some frame \<Rightarrow>
          if it_accepted it then l\<lparr>lp_frames := lp_frames l @ [frame]\<rparr> else l\<lparr>lp_at := Left_Err\<rparr>)"

definition leave_if_quit :: "('t, 'i) ui_loop \<Rightarrow> ('t, 'i) ui_loop" where
  "leave_if_quit l = (if should_quit (lp_app l) then l\<lparr>lp_at := Left_Ok\<rparr> else l)"

fun select_branch :: "('t, 'i) ui_env \<Rightarrow> instant \<Rightarrow> loop_event \<Rightarrow> ('t, 'i) ui_loop \<Rightarrow> ('t, 'i) ui_loop" where
  "select_branch env now (Input ev) l =
     leave_if_quit (l\<lparr>lp_app := handle_event env now ev (lp_snapshot l) (lp_app l)\<rparr>)"
| "select_branch env now InputEnded l = l\<lparr>lp_at := Left_Ok\<rparr>"
| "select_branch env now TickElapsed l = leave_if_quit l"
| "select_branch env now (SnapshotChanged s) l = leave_if_quit (l\<lparr>lp_snapshot := s\<rparr>)"
| "select_branch env now SnapshotsGone l = l\<lparr>lp_at := Left_Ok\<rparr>"
| "select_branch env now (ConnectedChanged b) l = leave_if_quit (l\<lparr>lp_connected := b\<rparr>)"
| "select_branch env now ConnectedGone l = leave_if_quit l"

text \<open>One iteration; once the loop has ended nothing happens any more.\<close>

definition loop_step :: "('t, 'i) ui_env \<Rightarrow> iteration \<Rightarrow> ('t, 'i) ui_loop \<Rightarrow> ('t, 'i) ui_loop" where
  "loop_step env it l =
     (if lp_at l \<noteq> Looping then l
      else let l = draw_frame env it l
           in if lp_at l \<noteq> Looping then l else select_branch env (it_now it) (it_event it) l)"

definition loop_start :: "('t, 'i) ui_env \<Rightarrow> string \<Rightarrow> ('t, 'i) ui_loop" where
  "loop_start env header = \<lparr>lp_app = app_new env header, lp_snapshot = default_state, lp_connected = False,
     lp_at = Looping, lp_frames = []\<rparr>"

subsection \<open>The invariant\<close>

text \<open>A snapshot that can be drawn: its maps are maps and its topic names free of the separator.\<close>

definition drawable :: "AppState \<Rightarrow> bool" where
  "drawable s \<longleftrightarrow> maps_ok s \<and> (\<forall>e \<in> set (topics s). CHR 0x01 \<notin> set (fst e))"

text \<open>What the loop relies on of the widget library.\<close>

definition sound_widget :: "('t, 'i) ui_env \<Rightarrow> bool" where
  "sound_widget env \<longleftrightarrow> (\<exists>ident. tree_widget (tree_item env) (tree_leaf env) ident \<and>
     (\<forall>items. distinct (map ident items) \<longrightarrow> tree_accepts env items))"

definition loop_inv :: "('t, 'i) ui_env \<Rightarrow> ('t, 'i) ui_loop \<Rightarrow> bool" where
  "loop_inv env l \<longleftrightarrow> sound_widget env \<and> drawable (lp_snapshot l) \<and> app_inv env (lp_app l) \<and>
     lp_at l \<noteq> Panicked \<and> (should_quit (lp_app l) \<longrightarrow> lp_at l = Left_Ok)"

fun drawable_event :: "loop_event \<Rightarrow> bool" where
  "drawable_event (SnapshotChanged s) = drawable s"
| "drawable_event _ = True"

lemma drawable_default [simp]: "drawable default_state"
  by (simp add: drawable_def maps_ok_def default_state_def)

lemma draw_frame_inv:
  assumes "loop_inv env l"
  shows "\<exists>frame. draw_frame env it l =
    (if it_accepted it then l\<lparr>lp_frames := lp_frames l @ [frame]\<rparr> else l\<lparr>lp_at := Left_Err\<rparr>)"
proof -
  obtain ident where "tree_widget (tree_item env) (tree_leaf env) ident"
    "\<forall>items. distinct (map ident items) \<longrightarrow> tree_accepts env items"
    using assms unfolding loop_inv_def sound_widget_def by blast
  from render_total [OF this] have "\<exists>frame. render env (it_now it) (fst (it_dims it)) (snd (it_dims it))
      (lp_snapshot l) (lp_connected l) (lp_app l) = Some frame"
    using assms unfolding loop_inv_def drawable_def by blast
  then show ?thesis by (auto simp: draw_frame_def)
qed

lemma handle_event_inv: "app_inv env app \<Longrightarrow> app_inv env (handle_event env now ev state app)"
  using app_step_inv [of env app "(ev, state, now)"] by (simp add: app_step_def)

lemma leave_if_quit_inv:
  "sound_widget env \<Longrightarrow> drawable (lp_snapshot l) \<Longrightarrow> app_inv env (lp_app l) \<Longrightarrow> lp_at l = Looping \<Longrightarrow>
     loop_inv env (leave_if_quit l)"
  by (simp add: loop_inv_def leave_if_quit_def)

lemma select_branch_inv:
  assumes "loop_inv env l" and "lp_at l = Looping" and "drawable_event e"
  shows "loop_inv env (select_branch env now e l)"
proof -
  have parts: "sound_widget env" "drawable (lp_snapshot l)" "app_inv env (lp_app l)"
    using assms(1) by (simp_all add: loop_inv_def)
  show ?thesis
    using assms(2,3) parts
    by (cases e) (simp_all add: leave_if_quit_inv handle_event_inv, simp_all add: loop_inv_def)
qed

lemma loop_step_inv:
  assumes "loop_inv env l" and "drawable_event (it_event it)"
  shows "loop_inv env (loop_step env it l)"
proof (cases "lp_at l = Looping")
  case True
  obtain frame where f: "draw_frame env it l =
      (if it_accepted it then l\<lparr>lp_frames := lp_frames l @ [frame]\<rparr> else l\<lparr>lp_at := Left_Err\<rparr>)"
    using draw_frame_inv [OF assms(1)] by blast
  show ?thesis
  proof (cases "it_accepted it")
    case accepted: True
    have "loop_inv env (l\<lparr>lp_frames := lp_frames l @ [frame]\<rparr>)" using assms(1) by (simp add: loop_inv_def)
    then show ?thesis using True accepted assms(2) by (simp add: loop_step_def f Let_def select_branch_inv)
  next
    case False
    then show ?thesis using True assms(1) by (auto simp: loop_step_def f Let_def loop_inv_def)
  qed
qed (use assms in \<open>simp add: loop_step_def\<close>)

text \<open>A step that drops what cannot be drawn keeps the invariant unconditionally.\<close>

definition guarded_step :: "('t, 'i) ui_env \<Rightarrow> iteration \<Rightarrow> ('t, 'i) ui_loop \<Rightarrow> ('t, 'i) ui_loop" where
  "guarded_step env it l = (if drawable_event (it_event it) then loop_step env it l else l)"

interpretation looping: preserved_by_steps "guarded_step env" "loop_inv env"
  by unfold_locales (simp add: guarded_step_def loop_step_inv)

lemma fold_guarded:
  "\<forall>it \<in> set its. drawable_event (it_event it) \<Longrightarrow> fold (guarded_step env) its l = fold (loop_step env) its l"
  by (induction its arbitrary: l) (simp_all add: guarded_step_def)

lemma loop_run_inv:
  assumes "sound_widget env" and "\<forall>it \<in> set its. drawable_event (it_event it)"
  shows "loop_inv env (fold (loop_step env) its (loop_start env header))"
proof -
  have "loop_inv env (loop_start env header)"
    using assms(1) by (simp add: loop_inv_def loop_start_def app_inv_def app_new_def)
  then have "loop_inv env (fold (guarded_step env) its (loop_start env header))" by (rule looping.run_inv)
  then show ?thesis by (simp only: fold_guarded [OF assms(2)])
qed

subsection \<open>The keyboard thread\<close>

text \<open>
  What one round of the thread sees: an event, or an error in reading it; nothing within the poll's
  timeout; an error in polling.
\<close>

datatype polled = PollReady "event option" | PollQuiet | PollFailed

text \<open>
  The thread over the rounds, each with whether the loop still holds the receiver; the result is the
  events sent and whether the thread has ended.
\<close>

fun input_thread :: "(polled \<times> bool) list \<Rightarrow> event list \<times> bool" where
  "input_thread [] = ([], False)"
| "input_thread ((PollReady (Some ev), receiving) # rounds) =
     (if receiving then (let (sent, ended) = input_thread rounds in (ev # sent, ended)) else ([], True))"
| "input_thread ((PollReady None, receiving) # rounds) = ([], True)"
| "input_thread ((PollQuiet, receiving) # rounds) = input_thread rounds"
| "input_thread ((PollFailed, receiving) # rounds) = ([], True)"

subsection \<open>Running\<close>

text \<open>
  \<open>run\<close>: initialise the terminal, loop, restore the terminal; on a panic the hook the initialisation
  installed restores it.
\<close>

datatype terminal_mode = Raw_Mode | Restored

datatype run_outcome = StillRunning | Returned_Ok | Returned_Err | Run_Panicked

definition ui_run :: "('t, 'i) ui_env \<Rightarrow> string \<Rightarrow> iteration list \<Rightarrow> terminal_mode \<times> run_outcome" where
  "ui_run env header its =
     (case lp_at (fold (loop_step env) its (loop_start env header)) of
        Looping \<Rightarrow> (Raw_Mode, StillRunning)
      | Left_Ok \<Rightarrow> (Restored, Returned_Ok)
      | Left_Err \<Rightarrow> (Restored, Returned_Err)
      | Panicked \<Rightarrow> (Restored, Run_Panicked))"

text \<open>What the thread sends is what it read up to the first failure, in order, nothing repeated or skipped.\<close>

lemma input_thread_lossless:
  "list_all snd rounds \<Longrightarrow> fst (input_thread rounds) =
     List.map_filter (\<lambda>r. case fst r of PollReady ev \<Rightarrow> ev | _ \<Rightarrow> None)
       (takeWhile (\<lambda>r. fst r \<noteq> PollFailed \<and> fst r \<noteq> PollReady None) rounds)"
  by (induction rounds rule: input_thread.induct)
    (auto simp: List.map_filter_simps case_prod_unfold Let_def)

text \<open>Which iterations leave the loop with success, on a loop that is running.\<close>

fun leaves :: "loop_event \<Rightarrow> bool" where
  "leaves InputEnded = True"
| "leaves SnapshotsGone = True"
| "leaves _ = False"

lemma select_branch_leaves:
  "lp_at l = Looping \<Longrightarrow> lp_at (select_branch env now e l) =
     (if leaves e \<or> should_quit (lp_app (select_branch env now e l)) then Left_Ok else Looping)"
  by (cases e) (simp_all add: leave_if_quit_def)

lemma loop_step_at:
  assumes "loop_inv env l" and "lp_at l = Looping"
  shows "lp_at (loop_step env it l) =
    (if \<not> it_accepted it then Left_Err
     else if leaves (it_event it) \<or> should_quit (lp_app (loop_step env it l)) then Left_Ok else Looping)"
proof -
  obtain frame where "draw_frame env it l =
      (if it_accepted it then l\<lparr>lp_frames := lp_frames l @ [frame]\<rparr> else l\<lparr>lp_at := Left_Err\<rparr>)"
    using draw_frame_inv [OF assms(1)] by blast
  then show ?thesis using assms(2) by (simp add: loop_step_def Let_def select_branch_leaves)
qed

lemma loop_stays_left: "lp_at l \<noteq> Looping \<Longrightarrow> fold (loop_step env) its l = l"
  by (induction its) (simp_all add: loop_step_def)

lemma loop_ends:
  assumes "loop_inv env l" and "\<forall>it \<in> set its. drawable_event (it_event it)" and "lp_at l = Looping"
  shows "(lp_at (fold (loop_step env) its l) = Looping \<longrightarrow> (\<forall>it \<in> set its. it_accepted it \<and> \<not> leaves (it_event it))) \<and>
    (lp_at (fold (loop_step env) its l) = Left_Err \<longrightarrow> (\<exists>it \<in> set its. \<not> it_accepted it))"
  using assms
proof (induction its arbitrary: l)
  case (Cons it its)
  let ?l = "loop_step env it l"
  have inv: "loop_inv env ?l" using Cons.prems by (simp add: loop_step_inv)
  note at = loop_step_at [OF Cons.prems(1,3), of it]
  show ?case
  proof (cases "lp_at ?l = Looping")
    case True
    with at have "it_accepted it" "\<not> leaves (it_event it)" by (auto split: if_splits)
    with Cons.IH [OF inv _ True] Cons.prems(2) show ?thesis by simp
  next
    case False
    with at show ?thesis by (auto simp: loop_stays_left split: if_splits)
  qed
qed simp

subsection \<open>Properties\<close>

text \<open>
  The interface survives everything: whatever the user types, whatever drawable snapshots and
  status changes arrive and in whatever order, whatever size the terminal has at each frame, drawing never panics, the loop is left as soon as quitting
  was requested, and while it runs the focus and scroll invariants of the view hold.
\<close>

theorem interface_never_panics:
  assumes "sound_widget env" and "\<forall>it \<in> set its. drawable_event (it_event it)"
  shows "let l = fold (loop_step env) its (loop_start env header) in
    lp_at l \<noteq> Panicked \<and> (lp_at l = Looping \<longrightarrow> \<not> should_quit (lp_app l)) \<and> app_inv env (lp_app l)"
  using loop_run_inv [OF assms, of header] by (auto simp: loop_inv_def Let_def)

lemma sample_widget_sound: "sound_widget sample_ui"
  unfolding sound_widget_def
  by (rule exI [of _ tree_item_id]) (use widget.tree_widget_axioms in \<open>simp add: sample_ui_def\<close>)

theorem interface_never_panics_witness:
  "lp_at (fold (loop_step sample_ui)
     [\<lparr>it_event = SnapshotChanged two_projects, it_now = 1, it_dims = (24, 32), it_accepted = True\<rparr>,
      \<lparr>it_event = Input (Key Press False Tab), it_now = 2, it_dims = (5, 9), it_accepted = True\<rparr>]
     (loop_start sample_ui ''h'')) \<noteq> Panicked"
proof -
  have "drawable two_projects"
    by (auto simp: drawable_def maps_ok_def two_projects_def published_topic_def state_defs bt_wf_def)
  then have "\<forall>it \<in> set [\<lparr>it_event = SnapshotChanged two_projects, it_now = 1, it_dims = (24, 32), it_accepted = True\<rparr>,
      \<lparr>it_event = Input (Key Press False Tab), it_now = 2, it_dims = (5, 9), it_accepted = True\<rparr>].
      drawable_event (it_event it)" by simp
  from interface_never_panics [OF sample_widget_sound this, of "''h''"]
  show ?thesis unfolding Let_def by blast
qed

text \<open>
  A run of the interface ends well: on drawable snapshots it never panics, it goes on exactly as long as
  every frame was accepted, the keyboard and the monitor's task were there and nobody quit, it fails only
  when the terminal refused a frame, and whenever it has ended the terminal is restored.
\<close>

theorem interface_run_ends_well:
  assumes "sound_widget env" and "\<forall>it \<in> set its. drawable_event (it_event it)"
  shows "ui_run env header its = (Raw_Mode, StillRunning) \<and> (\<forall>it \<in> set its. it_accepted it \<and> \<not> leaves (it_event it)) \<or>
    ui_run env header its = (Restored, Returned_Ok) \<or>
    ui_run env header its = (Restored, Returned_Err) \<and> (\<exists>it \<in> set its. \<not> it_accepted it)"
proof -
  have start: "loop_inv env (loop_start env header)" "lp_at (loop_start env header) = Looping"
    using assms(1) by (simp_all add: loop_inv_def loop_start_def app_inv_def app_new_def)
  have "lp_at (fold (loop_step env) its (loop_start env header)) \<noteq> Panicked"
    using loop_run_inv [OF assms, of header] by (simp add: loop_inv_def)
  with loop_ends [OF start(1) assms(2) start(2)] show ?thesis
    unfolding ui_run_def by (cases "lp_at (fold (loop_step env) its (loop_start env header))") auto
qed

theorem interface_run_ends_well_witness:
  "ui_run sample_ui ''h''
     [\<lparr>it_event = SnapshotChanged two_projects, it_now = 1, it_dims = (24, 32), it_accepted = True\<rparr>,
      \<lparr>it_event = Input (Key Press False Tab), it_now = 2, it_dims = (5, 9), it_accepted = True\<rparr>] \<noteq> (Restored, Returned_Err)"
proof -
  have "drawable two_projects"
    by (auto simp: drawable_def maps_ok_def two_projects_def published_topic_def state_defs bt_wf_def)
  then have "\<forall>it \<in> set [\<lparr>it_event = SnapshotChanged two_projects, it_now = 1, it_dims = (24, 32), it_accepted = True\<rparr>,
      \<lparr>it_event = Input (Key Press False Tab), it_now = 2, it_dims = (5, 9), it_accepted = True\<rparr>].
      drawable_event (it_event it)" by simp
  from interface_run_ends_well [OF sample_widget_sound this, of "''h''"]
  show ?thesis by auto
qed

end
