(* ===== verification/Loadgen.thy ===== *)
theory Loadgen
  imports Publisher Stream_Counting Message_View
begin

text \<open>
  \<^verbatim>\<open>src/loadgen.rs\<close>: the traffic generator. What it sends is a function of its round counter and of what
  it receives; the calls themselves are parameters, given by their outcome per attempt.
\<close>

definition TOPICS :: "string list" where
  "TOPICS = [''acme.orders.created'', ''acme.orders.shipped'', ''acme.orders.cancelled'', ''acme.billing.invoiced'',
     ''acme.billing.refunded'', ''telemetry.device.heartbeat'', ''telemetry.device.error'', ''telemetry.app.click'',
     ''logs.audit'']"

definition NO_CONSUMER :: "string list" where
  "NO_CONSUMER = [''logs.audit'']"

definition PUBLISHERS :: nat where "PUBLISHERS = 2"
definition ACK_DEADLINE_SECS :: int where "ACK_DEADLINE_SECS = 10"

definition gen_topic_path :: "string \<Rightarrow> string \<Rightarrow> string" where
  "gen_topic_path project ident = ''projects/'' @ project @ ''/topics/'' @ ident"

definition gen_sub_path :: "string \<Rightarrow> string \<Rightarrow> string" where
  "gen_sub_path project ident = ''projects/'' @ project @ ''/subscriptions/'' @ ident @ ''.worker''"

subsection \<open>Retrying\<close>

datatype status_code = AlreadyExists | Unavailable | OtherCode nat

datatype call_result = CallOk | CallErr status_code

definition ATTEMPTS :: nat where "ATTEMPTS = 30"

text \<open>
  The loop over the attempts, \<open>call k\<close> being the outcome of the \<open>k\<close>-th; \<open>None\<close> is the \<open>unreachable!\<close>
  behind the loop.
\<close>

fun retry_loop :: "(nat \<Rightarrow> call_result) \<Rightarrow> nat list \<Rightarrow> (status_code + unit) option" where
  "retry_loop call [] = None"
| "retry_loop call (attempt # attempts) =
     (case call attempt of
        CallOk \<Rightarrow> Some (Inr ())
      | CallErr code \<Rightarrow>
          if code = AlreadyExists then Some (Inr ())
          else if code = Unavailable \<and> attempt < ATTEMPTS then retry_loop call attempts
          else Some (Inl code))"

definition with_retry :: "(nat \<Rightarrow> call_result) \<Rightarrow> (status_code + unit) option" where
  "with_retry call = retry_loop call [1..<ATTEMPTS + 1]"

fun connect_loop :: "(nat \<Rightarrow> 'e + 'c) \<Rightarrow> nat list \<Rightarrow> ('e + 'c) option" where
  "connect_loop dial [] = None"
| "connect_loop dial (attempt # attempts) =
     (case dial attempt of
        Inr channel \<Rightarrow> Some (Inr channel)
      | Inl err \<Rightarrow> if attempt < ATTEMPTS then connect_loop dial attempts else Some (Inl err))"

definition gen_connect :: "(nat \<Rightarrow> 'e + 'c) \<Rightarrow> ('e + 'c) option" where
  "gen_connect dial = connect_loop dial [1..<ATTEMPTS + 1]"

subsection \<open>The topology\<close>

datatype admin_call = CreateTopicCall string | CreateSubscriptionCall string string int

definition topology_calls :: "string \<Rightarrow> admin_call list" where
  "topology_calls project = concat (map (\<lambda>topic.
     CreateTopicCall (gen_topic_path project topic) #
     (if topic \<in> set NO_CONSUMER then []
      else [CreateSubscriptionCall (gen_sub_path project topic) (gen_topic_path project topic) ACK_DEADLINE_SECS])) TOPICS)"

fun run_calls :: "(admin_call \<Rightarrow> nat \<Rightarrow> call_result) \<Rightarrow> admin_call list \<Rightarrow> (status_code + unit) option" where
  "run_calls call [] = Some (Inr ())"
| "run_calls call (c # cs) =
     (case with_retry (call c) of
        None \<Rightarrow> None
      | Some (Inl code) \<Rightarrow> Some (Inl code)
      | Some (Inr _) \<Rightarrow> run_calls call cs)"

definition ensure_topology :: "(admin_call \<Rightarrow> nat \<Rightarrow> call_result) \<Rightarrow> string \<Rightarrow> (status_code + unit) option" where
  "ensure_topology call project = run_calls call (topology_calls project)"

subsection \<open>Publishing\<close>

definition string_bytes :: "string \<Rightarrow> bytes" where
  "string_bytes s = map (\<lambda>c. of_nat (of_char c)) s"

definition show_u64 :: "u64 \<Rightarrow> string" where
  "show_u64 w = show_nat (unat w)"

definition quoted :: "string \<Rightarrow> string" where
  "quoted s = [CHR 0x22] @ s @ [CHR 0x22]"

definition to_le_bytes :: "u32 \<Rightarrow> bytes" where
  "to_le_bytes w = [ucast w, ucast (drop_bit 8 w), ucast (drop_bit 16 w), ucast (drop_bit 24 w)]"

definition audit_line :: "string \<Rightarrow> u64 \<Rightarrow> u64 \<Rightarrow> string" where
  "audit_line topic round_no n =
     ''AUDIT user=svc-'' @ show_u64 n @ '' action=publish topic='' @ topic @ '' seq='' @ show_u64 round_no @ ''.'' @ show_u64 n"

definition error_blob :: "u64 \<Rightarrow> u64 \<Rightarrow> bytes" where
  "error_blob round_no n =
     to_le_bytes (0xC0DE + ucast round_no) @ [0xFF, 0x00, 0xBE, 0xEF, ucast n, 0x80, 0x7F, 0x01]"

definition json_payload :: "string \<Rightarrow> u64 \<Rightarrow> u64 \<Rightarrow> string" where
  "json_payload topic round_no n =
     ''{'' @ quoted ''topic'' @ '':'' @ quoted topic @ '','' @ quoted ''round'' @ '':'' @ show_u64 round_no @ '','' @
     quoted ''index'' @ '':'' @ show_u64 n @ '','' @ quoted ''amount'' @ '':'' @
     show_u64 ((round_no + n) * 7 mod 1000) @ ''}''"

definition payload_for :: "string \<Rightarrow> u64 \<Rightarrow> u64 \<Rightarrow> PubsubMessage" where
  "payload_for topic round_no n =
     (let (data, content_type) =
        (if topic = ''logs.audit'' then (string_bytes (audit_line topic round_no n), ''text/plain'')
         else if topic = ''telemetry.device.error'' then (error_blob round_no n, ''application/octet-stream'')
         else (string_bytes (json_payload topic round_no n), ''application/json''))
      in \<lparr>msg_data = data,
          msg_attributes = Mapping.update ''round'' (show_u64 round_no)
            (Mapping.update ''content-type'' content_type Mapping.empty),
          msg_ordering_key = ''''\<rparr>)"

text \<open>The requests of one round, each with the publisher connection that sends it.\<close>

definition round_requests :: "string \<Rightarrow> nat \<Rightarrow> u64 \<Rightarrow> (nat \<times> PublishRequest) list" where
  "round_requests project publisher_count round_no =
     map (\<lambda>(index, topic).
       (let count = 1 + (round_no + of_nat index) mod 4 :: u64
        in (index mod publisher_count,
            \<lparr>pub_topic = gen_topic_path project topic,
             pub_messages = map (\<lambda>n. payload_for topic round_no (of_nat n)) [0..<unat count]\<rparr>)))
     (enumerate 0 TOPICS)"

subsection \<open>Consuming\<close>

record ReceivedMessage =
  rcv_ack_id :: string

text \<open>
  The loop over the responses, each with whether the channel of requests still accepts a frame; the
  result is the frames sent.
\<close>

fun consume_loop ::
  "(('e + ReceivedMessage list) \<times> bool) list \<Rightarrow> int StreamingPullRequest list" where
  "consume_loop [] = []"
| "consume_loop ((Inl status, accepted) # rest) = []"
| "consume_loop ((Inr messages, accepted) # rest) =
     (let ack_ids = map rcv_ack_id messages
      in if ack_ids \<noteq> []
         then (if accepted
               then \<lparr>sp_subscription = '''', sp_ack_ids = ack_ids, sp_rest = 0\<rparr> # consume_loop rest else [])
         else consume_loop rest)"

definition consume ::
  "string \<Rightarrow> bool \<Rightarrow> 'e + (('e + ReceivedMessage list) \<times> bool) list \<Rightarrow> int StreamingPullRequest list" where
  "consume subscription accepted responses =
     (if \<not> accepted then []
      else \<lparr>sp_subscription = subscription, sp_ack_ids = [], sp_rest = ACK_DEADLINE_SECS\<rparr> #
        (case responses of Inl status \<Rightarrow> [] | Inr items \<Rightarrow> consume_loop items))"

subsection \<open>The run\<close>

text \<open>
  \<open>publish_loop\<close> over the first \<open>n\<close> ticks: the round counter wraps, and a failed publish is only logged.
\<close>

definition publish_loop :: "string \<Rightarrow> nat \<Rightarrow> nat \<Rightarrow> (nat \<times> PublishRequest) list" where
  "publish_loop project publisher_count n = concat (map (\<lambda>r. round_requests project publisher_count (of_nat r)) [0..<n])"

text \<open>Establishing connections one after the other, \<open>dial i\<close> being the \<open>i\<close>-th call of \<open>connect\<close>; the first error ends it.\<close>

fun connect_all :: "(nat \<Rightarrow> nat \<Rightarrow> 'e + 'c) \<Rightarrow> nat list \<Rightarrow> ('e + 'c list) option" where
  "connect_all dial [] = Some (Inr [])"
| "connect_all dial (i # is) =
     (case gen_connect (dial i) of
        None \<Rightarrow> None
      | Some (Inl err) \<Rightarrow> Some (Inl err)
      | Some (Inr channel) \<Rightarrow> map_option (map_sum id (Cons channel)) (connect_all dial is))"

datatype 'e gen_error = ConnectFailed 'e | CallFailed status_code

text \<open>
  \<open>run\<close>: two connections for the administrative calls, one per consumer, one per publisher; then the
  subscriptions consumed and what is published in the first \<open>n\<close> rounds.
\<close>

definition consumed_subscriptions :: "string \<Rightarrow> string list" where
  "consumed_subscriptions project = map (gen_sub_path project) (filter (\<lambda>topic. topic \<notin> set NO_CONSUMER) TOPICS)"

definition gen_run ::
  "(nat \<Rightarrow> nat \<Rightarrow> 'e + 'c) \<Rightarrow> (admin_call \<Rightarrow> nat \<Rightarrow> call_result) \<Rightarrow> string \<Rightarrow> nat \<Rightarrow>
   ('e gen_error + string list \<times> (nat \<times> PublishRequest) list) option" where
  "gen_run dial call project n =
     (let subscriptions = consumed_subscriptions project
      in case connect_all dial [0, 1] of
           None \<Rightarrow> None
         | Some (Inl err) \<Rightarrow> Some (Inl (ConnectFailed err))
         | Some (Inr _) \<Rightarrow>
             (case ensure_topology call project of
                None \<Rightarrow> None
              | Some (Inl code) \<Rightarrow> Some (Inl (CallFailed code))
              | Some (Inr _) \<Rightarrow>
                  (case connect_all dial [2..<2 + length subscriptions + PUBLISHERS] of
                     None \<Rightarrow> None
                   | Some (Inl err) \<Rightarrow> Some (Inl (ConnectFailed err))
                   | Some (Inr _) \<Rightarrow> Some (Inr (subscriptions, publish_loop project PUBLISHERS n)))))"

subsection \<open>Facts\<close>

lemma consume_loop_unnamed: "req \<in> set (consume_loop items) \<Longrightarrow> sp_subscription req = ''''"
  by (induction items rule: consume_loop.induct) (auto simp: Let_def split: if_splits)

lemma consume_loop_acks:
  assumes "\<forall>item \<in> set items. snd item \<and> (\<exists>messages. fst item = Inr messages)"
  shows "(\<Sum>req \<leftarrow> consume_loop items. length (sp_ack_ids req)) = (\<Sum>item \<leftarrow> items. length (projr (fst item)))"
  using assms by (induction items rule: consume_loop.induct) (auto simp: Let_def)

lemma retry_loop_cases:
  "ks \<noteq> [] \<Longrightarrow> last ks = ATTEMPTS \<Longrightarrow> sorted_wrt (<) ks \<Longrightarrow> \<exists>k \<in> set ks.
     (\<forall>j \<in> set ks. j < k \<longrightarrow> call j = CallErr Unavailable) \<and>
     (call k \<noteq> CallErr Unavailable \<or> k = ATTEMPTS) \<and>
     retry_loop call ks = Some (case call k of CallOk \<Rightarrow> Inr () | CallErr code \<Rightarrow>
       if code = AlreadyExists then Inr () else Inl code)"
proof (induction ks)
  case (Cons k ks)
  show ?case
  proof (cases "call k = CallErr Unavailable \<and> k < ATTEMPTS")
    case True
    with Cons.prems have "ks \<noteq> []" by auto
    with Cons obtain k' where k': "k' \<in> set ks" "\<forall>j \<in> set ks. j < k' \<longrightarrow> call j = CallErr Unavailable"
      "call k' \<noteq> CallErr Unavailable \<or> k' = ATTEMPTS"
      "retry_loop call ks = Some (case call k' of CallOk \<Rightarrow> Inr () | CallErr code \<Rightarrow>
         if code = AlreadyExists then Inr () else Inl code)"
      by auto
    with True show ?thesis by (intro bexI [of _ k']) auto
  next
    case False
    have "k \<le> ATTEMPTS"
      using Cons.prems last_in_set [of "k # ks"] by (auto simp: less_imp_le)
    with False Cons.prems show ?thesis
      by (intro bexI [of _ k]) (auto split: call_result.splits)
  qed
qed simp

text \<open>The code behind the retry loops is never reached.\<close>

lemma gen_connect_decides: "gen_connect dial \<noteq> None"
proof -
  have "ks \<noteq> [] \<Longrightarrow> last ks = ATTEMPTS \<Longrightarrow> sorted_wrt (<) ks \<Longrightarrow> connect_loop dial ks \<noteq> None" for ks
  proof (induction ks)
    case (Cons k ks)
    have "k < ATTEMPTS \<Longrightarrow> ks \<noteq> []" using Cons.prems by auto
    with Cons show ?case by (cases "k < ATTEMPTS") (auto split: sum.split)
  qed simp
  from this [of "[1..<ATTEMPTS + 1]"] show ?thesis by (simp add: gen_connect_def ATTEMPTS_def)
qed

lemma connect_all_decides: "connect_all dial is \<noteq> None"
  by (induction "is") (auto simp: gen_connect_decides split: option.split sum.split)

lemma with_retry_ends: "with_retry call \<noteq> None"
proof -
  have "sorted_wrt (<) [1..<ATTEMPTS + 1]" "[1..<ATTEMPTS + 1] \<noteq> []" "last [1..<ATTEMPTS + 1] = ATTEMPTS"
    by (auto simp: ATTEMPTS_def)
  from retry_loop_cases [OF this(2,3,1), of call] show ?thesis by (auto simp: with_retry_def)
qed

lemma run_calls_cases:
  "run_calls call cs = Some (Inr ()) \<and> (\<forall>c \<in> set cs. with_retry (call c) = Some (Inr ())) \<or>
   (\<exists>c \<in> set cs. \<exists>code. with_retry (call c) = Some (Inl code) \<and> run_calls call cs = Some (Inl code))"
  using with_retry_ends by (induction cs) (auto split: option.split sum.split)

lemma connect_all_iff:
  "(\<exists>cs. connect_all dial is = Some (Inr cs)) \<longleftrightarrow> (\<forall>i \<in> set is. \<exists>c. gen_connect (dial i) = Some (Inr c))"
proof (induction "is")
  case (Cons i "is")
  obtain res where res: "connect_all dial is = Some res" using connect_all_decides [of dial "is"] by auto
  obtain r where r: "gen_connect (dial i) = Some r" using gen_connect_decides [of "dial i"] by auto
  show ?case
    using Cons by (cases r; cases res) (auto simp: res r)
qed simp

lemma ensure_topology_iff:
  "ensure_topology call project = Some (Inr ()) \<longleftrightarrow> (\<forall>c \<in> set (topology_calls project). with_retry (call c) = Some (Inr ()))"
  using run_calls_cases [of call "topology_calls project"] by (auto simp: ensure_topology_def)

definition all_started :: "(nat \<Rightarrow> nat \<Rightarrow> 'e + 'c) \<Rightarrow> (admin_call \<Rightarrow> nat \<Rightarrow> call_result) \<Rightarrow> string \<Rightarrow> bool" where
  "all_started dial call project \<longleftrightarrow>
     (\<exists>cs. connect_all dial [0, 1] = Some (Inr cs)) \<and> ensure_topology call project = Some (Inr ()) \<and>
     (\<exists>cs. connect_all dial [2..<2 + length (consumed_subscriptions project) + PUBLISHERS] = Some (Inr cs))"

lemma gen_run_cases:
  "if all_started dial call project
   then gen_run dial call project n = Some (Inr (consumed_subscriptions project, publish_loop project PUBLISHERS n))
   else \<exists>err. gen_run dial call project n = Some (Inl err)"
proof -
  obtain a where a: "connect_all dial [0, 1] = Some a" using connect_all_decides [of dial "[0, 1]"] by blast
  obtain b where b: "ensure_topology call project = Some b"
    using run_calls_cases [of call "topology_calls project"] by (auto simp: ensure_topology_def)
  obtain c where c: "connect_all dial [2..<2 + length (consumed_subscriptions project) + PUBLISHERS] = Some c"
    using connect_all_decides [of dial "[2..<2 + length (consumed_subscriptions project) + PUBLISHERS]"] by blast
  show ?thesis
    unfolding all_started_def gen_run_def Let_def a b c by (cases a; cases b; cases c) simp_all
qed

lemma all_started_iff:
  "all_started dial call project \<longleftrightarrow> (\<forall>i \<in> {0..<12}. \<exists>c. gen_connect (dial i) = Some (Inr c)) \<and>
     (\<forall>c \<in> set (topology_calls project). with_retry (call c) = Some (Inr ()))"
proof -
  have "length (consumed_subscriptions project) = 8"
    by (simp add: consumed_subscriptions_def TOPICS_def NO_CONSUMER_def)
  then have "{0..<12} = set [0, 1] \<union> set [2..<2 + length (consumed_subscriptions project) + PUBLISHERS]"
    by (auto simp only: PUBLISHERS_def set_upt list.set) (simp_all add: numeral_eq_Suc)
  then show ?thesis
    unfolding all_started_def connect_all_iff ensure_topology_iff by blast
qed

text \<open>No byte of well-formed UTF-8 is above \<open>0xF4\<close>.\<close>

lemma utf8_decode_max: "utf8_decode bs = Some cs \<Longrightarrow> \<forall>b \<in> set bs. b \<le> 0xF4"
proof (induction bs arbitrary: cs rule: utf8_decode.induct)
  case (2 b rest)
  have cont: "continuation x \<Longrightarrow> x \<le> 0xF4" for x by (simp add: continuation_def)
  consider "b < 0x80" | "\<not> b < 0x80" "0xC2 \<le> b \<and> b \<le> 0xDF" | "\<not> b < 0x80" "\<not> (0xC2 \<le> b \<and> b \<le> 0xDF)" "0xE0 \<le> b \<and> b \<le> 0xEF"
    | "\<not> b < 0x80" "\<not> (0xC2 \<le> b \<and> b \<le> 0xDF)" "\<not> (0xE0 \<le> b \<and> b \<le> 0xEF)" "0xF0 \<le> b \<and> b \<le> 0xF4"
    using "2.prems" by (auto split: if_splits)
  then show ?case
  proof cases
    case 1
    with "2.prems" "2.IH"(1) show ?thesis by auto
  next
    case 2
    then obtain b1 r ds where "rest = b1 # r" "continuation b1" "utf8_decode r = Some ds"
      using "2.prems" by (auto split: list.splits if_splits)
    with 2 "2.IH"(2) cont show ?thesis by simp
  next
    case 3
    then obtain b1 b2 r ds where "rest = b1 # b2 # r" "continuation b1" "continuation b2"
      "b = 0xE0 \<longrightarrow> 0xA0 \<le> b1" "b = 0xED \<longrightarrow> b1 \<le> 0x9F" "utf8_decode r = Some ds"
      using "2.prems" by (auto split: list.splits if_splits)
    with 3 "2.IH"(3) cont show ?thesis by simp
  next
    case 4
    then obtain b1 b2 b3 r ds where "rest = b1 # b2 # b3 # r" "continuation b1" "continuation b2" "continuation b3"
      "b = 0xF0 \<longrightarrow> 0x90 \<le> b1" "b = 0xF4 \<longrightarrow> b1 \<le> 0x8F" "utf8_decode r = Some ds"
      using "2.prems" by (auto split: list.splits if_splits)
    with 4 "2.IH"(4) cont show ?thesis by simp
  qed
qed simp

subsection \<open>Properties\<close>

text \<open>
  Retrying is bounded and takes the first answer that is not "unavailable": some attempt among
  the thirty decides, all before it were unavailable, it is itself not unavailable unless it is the
  last, its success or an existing entity is success, and the code behind the loop is never reached.
\<close>

theorem with_retry_decides:
  "\<exists>k \<in> {1..30}. (\<forall>j \<in> {1..<k}. call j = CallErr Unavailable) \<and> (call k \<noteq> CallErr Unavailable \<or> k = 30) \<and>
     with_retry call = Some (case call k of CallOk \<Rightarrow> Inr () | CallErr code \<Rightarrow>
       if code = AlreadyExists then Inr () else Inl code)"
proof -
  have ks: "[1..<ATTEMPTS + 1] \<noteq> []" "last [1..<ATTEMPTS + 1] = ATTEMPTS" "sorted_wrt (<) [1..<ATTEMPTS + 1]"
    "set [1..<ATTEMPTS + 1] = {1..30}"
    by (auto simp: ATTEMPTS_def)
  have "\<exists>k \<in> {1..30}. (\<forall>j \<in> {1..30}. j < k \<longrightarrow> call j = CallErr Unavailable) \<and>
    (call k \<noteq> CallErr Unavailable \<or> k = ATTEMPTS) \<and>
    with_retry call = Some (case call k of CallOk \<Rightarrow> Inr () | CallErr code \<Rightarrow>
       if code = AlreadyExists then Inr () else Inl code)"
    using retry_loop_cases [OF ks(1-3), of call] unfolding ks(4) with_retry_def .
  then obtain k where k: "k \<in> {1..30}" and rest: "(\<forall>j \<in> {1..30}. j < k \<longrightarrow> call j = CallErr Unavailable) \<and>
    (call k \<noteq> CallErr Unavailable \<or> k = ATTEMPTS) \<and>
    with_retry call = Some (case call k of CallOk \<Rightarrow> Inr () | CallErr code \<Rightarrow>
       if code = AlreadyExists then Inr () else Inl code)"
    by (rule bexE)
  show ?thesis
  proof (intro bexI [OF _ k] conjI)
    show "\<forall>j \<in> {1..<k}. call j = CallErr Unavailable" using conjunct1 [OF rest] k by simp
    show "call k \<noteq> CallErr Unavailable \<or> k = 30" using rest unfolding ATTEMPTS_def by (elim conjE)
  qed (use rest in \<open>elim conjE\<close>)
qed

theorem with_retry_decides_witness:
  "with_retry (\<lambda>k. if k < 3 then CallErr Unavailable else CallOk) = Some (Inr ())"
proof -
  let ?call = "\<lambda>k :: nat. if k < 3 then CallErr Unavailable else CallOk"
  obtain k where "?call k \<noteq> CallErr Unavailable \<or> k = 30"
    and decided: "with_retry ?call = Some (case ?call k of CallOk \<Rightarrow> Inr () | CallErr code \<Rightarrow>
      if code = AlreadyExists then Inr () else Inl code)"
    using with_retry_decides [of ?call] by (elim bexE conjE) blast
  then have "\<not> k < 3" by (auto split: if_splits)
  then show ?thesis unfolding decided by simp
qed



text \<open>
  A generated consumer acknowledges everything it is delivered, and names its subscription in
  the first frame only: while its frames are accepted, the acknowledgements it sends are as many as the
  messages it received, and a proxied stream that reads its frames names no other subscription.
\<close>

theorem consumer_acks_everything:
  assumes "\<forall>item \<in> set items. snd item \<and> (\<exists>messages. fst item = Inr messages)"
    and "set (read_up p) \<subseteq> set (consume subscription True (Inr items))"
  shows "(\<Sum>req \<leftarrow> consume subscription True (Inr items). length (sp_ack_ids req)) =
      (\<Sum>item \<leftarrow> items. length (projr (fst item))) \<and> names_only subscription p"
proof
  show "(\<Sum>req \<leftarrow> consume subscription True (Inr items). length (sp_ack_ids req)) =
      (\<Sum>item \<leftarrow> items. length (projr (fst item)))"
    by (simp add: consume_def consume_loop_acks [OF assms(1)])
  have "sp_subscription req \<in> {'''', subscription}" if "req \<in> set (consume subscription True (Inr items))" for req
    using that consume_loop_unnamed [of req items] by (auto simp: consume_def)
  with assms(2) show "names_only subscription p" unfolding names_only_def by blast
qed

text \<open>
  The demo's binary payload is shown as a hex dump in every round, as its comment promises: it
  is never UTF-8, so, with a JSON parser that accepts UTF-8 only, neither JSON nor text.
\<close>

theorem error_payload_is_hex:
  assumes "\<And>data. utf8_decode (map unat data) = None \<Longrightarrow> pretty_json data = None"
  shows "rendered_label (render_body pretty_json (msg_data (payload_for ''telemetry.device.error'' round_no n))) = ''hex''"
proof -
  have data: "msg_data (payload_for ''telemetry.device.error'' round_no n) = error_blob round_no n"
    by (simp add: payload_for_def)
  have "unat (0xFF :: u8) \<in> set (map unat (error_blob round_no n))" by (simp add: error_blob_def)
  then have "utf8_decode (map unat (error_blob round_no n)) = None"
    using utf8_decode_max [of "map unat (error_blob round_no n)"] by (cases "utf8_decode (map unat (error_blob round_no n))") force+
  with assms show ?thesis
    unfolding data by (simp add: render_body_def as_json_def as_text_def error_blob_def)
qed

theorem error_payload_is_hex_witness:
  "rendered_label (render_body (\<lambda>_. None) (msg_data (payload_for ''telemetry.device.error'' 7 1))) = ''hex''"
  by (rule error_payload_is_hex) simp

theorem consumer_acks_everything_witness:
  "(\<Sum>req \<leftarrow> consume ''s'' True (Inr [(Inr [\<lparr>rcv_ack_id = ''a''\<rparr>, \<lparr>rcv_ack_id = ''b''\<rparr>], True)] :: unit + _).
     length (sp_ack_ids req)) = 2"
  using conjunct1 [OF consumer_acks_everything [of "[(Inr [\<lparr>rcv_ack_id = ''a''\<rparr>, \<lparr>rcv_ack_id = ''b''\<rparr>], True)]"
      "pumps_start :: (unit, int, unit) pumps" "''s''"]]
  by (simp add: pumps_start_def numeral_2_eq_2)

end
