(* ===== verification/Binaries.thy ===== *)
theory Binaries
  imports Logging Cli Ui_Loop Loadgen
begin

text \<open>
  \<^verbatim>\<open>src/bin/pub-sub-tui.rs\<close> and \<^verbatim>\<open>src/bin/pub-sub-loadgen.rs\<close>: what the two other binaries make of their
  command lines. The environment is the level in \<open>LOG_LEVEL\<close> and the logging library's parsers.
\<close>

record 'f log_env =
  le_try_new :: "string \<Rightarrow> 'f option"
  le_new :: "string \<Rightarrow> 'f"
  le_level :: "string option"
  le_opens :: "string \<Rightarrow> bool"

text \<open>What \<open>main\<close> of the interface asks for: the address the link dials, the header, and how it ended.\<close>

record tui_process =
  tp_url :: string
  tp_header :: string
  tp_terminal :: terminal_mode
  tp_outcome :: run_outcome

definition endpoint_url :: "string \<Rightarrow> string" where
  "endpoint_url endpoint = ''http://'' @ endpoint"

definition tui_main :: "'f log_env \<Rightarrow> ('t, 'i) ui_env \<Rightarrow> TuiCli \<Rightarrow> iteration list \<Rightarrow> string + tui_process" where
  "tui_main le env cli its =
     (case log_init (le_try_new le) (le_new le) (le_level le) (le_opens le) (tui_log_file cli) of
        Inl err \<Rightarrow> Inl err
      | Inr config \<Rightarrow>
          (let header = ''pub-sub-tui   monitor '' @ tui_monitor cli;
               (terminal, outcome) = ui_run env header its
           in Inr \<lparr>tp_url = endpoint_url (tui_monitor cli), tp_header = header,
                tp_terminal = terminal, tp_outcome = outcome\<rparr>))"

text \<open>
  \<open>main\<close> of the generator, over the first \<open>n\<close> ticks: \<open>dial url\<close> and \<open>call\<close> are the network's answers.
\<close>

definition loadgen_main ::
  "(string \<Rightarrow> nat \<Rightarrow> nat \<Rightarrow> 'e + 'c) \<Rightarrow> (admin_call \<Rightarrow> nat \<Rightarrow> call_result) \<Rightarrow> LoadgenCli \<Rightarrow> nat \<Rightarrow>
   ('e gen_error + string list \<times> (nat \<times> PublishRequest) list) option" where
  "loadgen_main dial call cli n = gen_run (dial (endpoint_url (gen_endpoint cli))) call (gen_project_id cli) n"

lemma tui_outcome:
  assumes "sound_widget env" and "\<forall>it \<in> set its. drawable_event (it_event it)"
    and "tui_main le env cli its = Inr p"
  shows "le_opens le (tui_log_file cli) \<and> tp_outcome p \<noteq> Run_Panicked \<and>
    (tp_outcome p \<noteq> StillRunning \<longrightarrow> tp_terminal p = Restored) \<and>
    (tp_outcome p = Returned_Err \<longrightarrow> (\<exists>it \<in> set its. \<not> it_accepted it))"
proof -
  let ?header = "''pub-sub-tui   monitor '' @ tui_monitor cli"
  have p: "le_opens le (tui_log_file cli)" "(tp_terminal p, tp_outcome p) = ui_run env ?header its"
    using assms(3) by (auto simp: tui_main_def log_init_def Let_def split: if_splits prod.splits)
  have "lp_at (fold (loop_step env) its (loop_start env ?header)) \<noteq> Panicked"
    using loop_run_inv [OF assms(1,2), of ?header] by (simp add: loop_inv_def)
  moreover have "loop_inv env (loop_start env ?header)" "lp_at (loop_start env ?header) = Looping"
    using assms(1) by (simp_all add: loop_inv_def loop_start_def app_inv_def app_new_def)
  ultimately show ?thesis
    using p loop_ends [of env "loop_start env ?header" its] assms(2)
    by (cases "lp_at (fold (loop_step env) its (loop_start env ?header))") (auto simp: ui_run_def)
qed



end
