(* ===== verification/System_View.thy ===== *)
theory System_View
  imports System Binaries
begin

text \<open>
  The screen at the end of the whole system: which topic names can reach an interface, and that an
  interface is safe as long as the traffic does not name topics with the separator its tree builds
  identifiers with.
\<close>

subsection \<open>Where the topic names of a state come from\<close>

fun topic_names :: "observation \<Rightarrow> string set" where
  "topic_names (Publish topic peer messages) = {topic}"
| "topic_names (AdminSnapshot names infos) = set names"
| "topic_names _ = {}"

definition names_shown :: "AppState \<Rightarrow> string set" where
  "names_shown st = fst ` set (topics st)"

lemma keys_upsert: "fst ` set (bt_upsert k d f m) = insert k (fst ` set m)"
  by (auto simp: bt_upsert_def fst_set_bt_insert)

lemma keys_map: "fst ` set (bt_map f m) = fst ` set m"
  by (metis list.set_map map_fst_bt_map)

lemma keys_mark: "fst ` set (mark_topics names m) = set names \<union> fst ` set m"
  by (induction names arbitrary: m) (auto simp: keys_upsert)

lemma names_apply_obs: "names_shown (apply_obs obs now st) = topic_names obs \<union> names_shown st"
  by (cases obs) (auto simp: names_shown_def apply_publish_eq apply_admin_eq keys_upsert keys_mark keys_map)

lemma names_fold_obs: "names_shown (fold_obs es st) = (\<Union>e \<in> set es. topic_names (fst e)) \<union> names_shown st"
  by (induction es arbitrary: st) (auto simp: apply_timed_def names_apply_obs)

lemma names_view: "names_shown (view_of cap es) = (\<Union>e \<in> set es. topic_names (fst e))"
proof -
  have "names_shown (start_state cap) = {}" by (simp add: names_shown_def start_state_def default_state_def)
  then show ?thesis using names_fold_obs [of es "start_state cap"] by (simp add: view_of_def names_shown_def)
qed

lemma names_stage: "names_shown (stage cap es m) \<subseteq> (\<Union>e \<in> set es. topic_names (fst e))"
proof (cases m)
  case 0
  then show ?thesis by (simp add: stage_def names_shown_def default_state_def)
next
  case (Suc n)
  then have "names_shown (stage cap es m) = (\<Union>e \<in> set (take n es). topic_names (fst e))"
    by (simp add: stage_def names_view)
  then show ?thesis by (auto dest: in_set_takeD)
qed

lemma view_maps_ok: "maps_ok (view_of cap es)"
  unfolding view_of_def by (intro state_ok_maps_ok trim_recent_ok fold_obs_ok)

lemma default_maps_ok: "maps_ok default_state"
  by (simp add: maps_ok_def default_state_def)

subsection \<open>Across the wire\<close>

lemma from_wire_maps_ok: "maps_ok (from_wire lo w later)"
proof -
  have "bt_wf (publishers t)"
    if "bt_get (bt_collect (map (\<lambda>(name, topic). (name, topic_from_wire lo topic later)) es)) n = Some t" for es n t
    using that by (auto simp: bt_collect_get topic_from_wire_def dest!: map_of_SomeD)
  then show ?thesis by (auto simp: maps_ok_def from_wire_def)
qed

lemma names_over_wire: "maps_ok st \<Longrightarrow> names_shown (from_wire lo (to_wire st sent) later) = names_shown st"
  using wire_map_trip [of "topics st" "\<lambda>t. topic_from_wire lo t later" "\<lambda>t. topic_to_wire t sent"]
  by (simp add: names_shown_def maps_ok_def from_wire_def to_wire_def keys_map)

lemma list_all2_left: "list_all2 P xs ys \<Longrightarrow> x \<in> set xs \<Longrightarrow> \<exists>y. P x y"
  by (auto simp: list_all2_conv_all_nth in_set_conv_nth)

text \<open>The names an interface shows were all observed.\<close>

lemma shown_names_observed:
  assumes "sys_inv cap lo s"
  shows "names_shown (link_state (vw_link (sy_viewers s i))) \<subseteq> (\<Union>obs \<in> set (accepted (sy_monitor s)). topic_names obs)"
    and "maps_ok (link_state (vw_link (sy_viewers s i)))"
proof -
  let ?l = "vw_link (sy_viewers s i)"
  have link: "link_state ?l = (if received ?l = [] then default_state
      else from_wire lo (fst (last (received ?l))) (snd (last (received ?l))))"
    using assms by (simp add: sys_inv_def viewer_inv_def link_inv_def)
  obtain es ms where es: "prefix (map fst es) (accepted (sy_monitor s))"
    and shown: "list_all2 (\<lambda>r m. \<exists>sent. fst r = to_wire (stage cap es m) sent) (received ?l) ms"
    using shown_in_order [OF assms] by blast
  show "maps_ok (link_state ?l)" by (simp add: link default_maps_ok from_wire_maps_ok)
  show "names_shown (link_state ?l) \<subseteq> (\<Union>obs \<in> set (accepted (sy_monitor s)). topic_names obs)"
  proof (cases "received ?l = []")
    case True
    then show ?thesis by (simp add: link names_shown_def default_state_def)
  next
    case False
    then have "last (received ?l) \<in> set (received ?l)" by simp
    with shown obtain m sent where last: "fst (last (received ?l)) = to_wire (stage cap es m) sent"
      by (blast dest: list_all2_left)
    note names_stage [of cap es m]
    moreover have "maps_ok (stage cap es m)"
      by (cases m) (simp_all add: stage_def view_maps_ok default_maps_ok)
    moreover have "fst ` set es \<subseteq> set (accepted (sy_monitor s))"
      using es set_mono_prefix by fastforce
    ultimately show ?thesis using False by (auto simp: link last names_over_wire)
  qed
qed

lemma shown_drawable:
  assumes "sys_inv cap lo s" and "\<forall>obs \<in> set (accepted (sy_monitor s)). \<forall>name \<in> topic_names obs. CHR 0x01 \<notin> set name"
  shows "drawable (link_state (vw_link (sy_viewers s i)))"
  using shown_names_observed [OF assms(1), of i] assms(2)
  unfolding drawable_def names_shown_def by (metis (no_types, lifting) UN_E imageI subsetD)

subsection \<open>Properties\<close>

lemma owned_ok: "observer_reachable cap ob \<Longrightarrow> state_ok (owned ob)"
proof (induction rule: observer_reachable.induct)
  case (start t0)
  show ?case by (simp add: observer_start_def start_state_def)
next
  case (step ob ob')
  from step.hyps(2) step.IH show ?case
    by (cases rule: observer_step.cases)
      (simp_all add: produce_def try_send_def fold_one_def end_burst_def stop_def Let_def apply_obs_ok trim_recent_ok)
qed



text \<open>
  Claim C20. No traffic crashes an interface, as long as no topic is named with the separator character: if every
  snapshot the interface process draws is what its link shows in some reachable state of a system that
  observed only such names, then whatever is typed and whatever becomes of the connection the process never
  panics, and whenever it has ended the terminal is restored.
\<close>

theorem clean_traffic_never_panics:
  assumes "sound_widget env" and "tui_main le env cli its = Inr p"
    and "\<forall>it \<in> set its. \<forall>shown. it_event it = SnapshotChanged shown \<longrightarrow>
      (\<exists>s i. sys_reachable cap lo s \<and> shown = link_state (vw_link (sy_viewers s i)) \<and>
        (\<forall>obs \<in> set (accepted (sy_monitor s)). \<forall>name \<in> topic_names obs. CHR 0x01 \<notin> set name))"
  shows "tp_outcome p \<noteq> Run_Panicked \<and> (tp_outcome p \<noteq> StillRunning \<longrightarrow> tp_terminal p = Restored)"
proof -
  have "drawable_event (it_event it)" if "it \<in> set its" for it
    using assms(3) that by (cases "it_event it") (fastforce intro: shown_drawable sys_reachable_inv)+
  then have "\<forall>it \<in> set its. drawable_event (it_event it)" by blast
  with tui_outcome [OF assms(1) _ assms(2)] show ?thesis by blast
qed

theorem clean_traffic_never_panics_witness:
  "\<exists>p. tui_main \<lparr>le_try_new = Some, le_new = id, le_level = None, le_opens = (\<lambda>_. True)\<rparr> sample_ui tui_defaults
      [\<lparr>it_event = SnapshotChanged (link_state (vw_link first_viewer)), it_now = 8, it_dims = (24, 32), it_accepted = True\<rparr>] = Inr p \<and>
    tp_outcome p \<noteq> Run_Panicked"
proof -
  let ?le = "\<lparr>le_try_new = Some, le_new = id, le_level = None, le_opens = (\<lambda>_. True)\<rparr>"
  let ?its = "[\<lparr>it_event = SnapshotChanged (link_state (vw_link first_viewer)), it_now = 8, it_dims = (24, 32), it_accepted = True\<rparr>]"
  have "\<exists>p. tui_main ?le sample_ui tui_defaults ?its = Inr p"
    by (simp add: tui_main_def log_init_def case_prod_unfold Let_def)
  then obtain p where p: "tui_main ?le sample_ui tui_defaults ?its = Inr p" by blast
  have first: "link_state (vw_link first_viewer) = link_state (vw_link (sy_viewers first_system 0))"
    "accepted (sy_monitor first_system) = [ConsumerOpen ''s'' None]"
    by (simp_all add: first_system_def one_shown_simps)
  have "\<forall>it \<in> set ?its. \<forall>shown. it_event it = SnapshotChanged shown \<longrightarrow>
      (\<exists>s i. sys_reachable 2 0 s \<and> shown = link_state (vw_link (sy_viewers s i)) \<and>
        (\<forall>obs \<in> set (accepted (sy_monitor s)). \<forall>name \<in> topic_names obs. CHR 0x01 \<notin> set name))"
    using first_system_reachable first
    by (auto intro!: exI [of _ first_system] exI [of _ "0 :: nat"])
  from clean_traffic_never_panics [OF sample_widget_sound p this] p show ?thesis by blast
qed

end
