(* ===== verification/Whole_Program.thy ===== *)
theory Whole_Program
  imports System Cli
begin

text \<open>
  The monitor with its traffic: the tasks that serve the calls of clients (\<^verbatim>\<open>src/proxy\<close>) and poll the server
  (\<^verbatim>\<open>src/poller.rs\<close>) put their observations into the channel of the state-owning task, whose snapshots the
  interfaces show. The upstream's answer to a call, the REST relay's environment and the admin client are
  parts of the event: they may be others at every call.
\<close>

subsection \<open>Traffic\<close>

datatype ('e, 'r, 'z, 'b, 'u, 's, 'f) traffic =
    PublishCall "(PublishRequest, 'e, 'r) upstream" "PublishRequest grpc_request"
  | PullCall "(PullRequest, 'e, 'z PullResponse) upstream" "PullRequest grpc_request"
  | AckCall "(AcknowledgeRequest, 'e, unit) upstream" "AcknowledgeRequest grpc_request"
  | RestCall "('b, 'u) rest_env" "'b http_request"
  | PollTick "('s, 'f) admin_client"

text \<open>What serving one event observes.\<close>

fun observed ::
  "'addr proxy_server \<Rightarrow> ((string, string) mapping \<Rightarrow> (string \<times> string) list) \<Rightarrow>
   ('e, 'r, 'z, 'b, 'u, 's, 'f) traffic \<Rightarrow> observation list" where
  "observed px iter (PublishCall up request) = snd (publish (px_publisher px) iter up request)"
| "observed px iter (PullCall up request) = snd (pull up request)"
| "observed px iter (AckCall up request) = snd (acknowledge up request)"
| "observed px iter (RestCall env request) = snd (handle env (px_rest px) request)"
| "observed px iter (PollTick client) = poll_tick client"

subsection \<open>The machine\<close>

text \<open>
  Task \<open>k\<close> serves one call after the other, or the two pumps of a stream; \<open>ws_pending k\<close> are the observations
  it has made and not yet put into the sink, which it does one by one before it goes on. \<open>ws_calls\<close> records
  what was served.
\<close>

record ('t, 'p) world =
  ws_system :: system
  ws_pending :: "nat \<Rightarrow> observation list"
  ws_streams :: "nat \<Rightarrow> 'p"
  ws_calls :: "'t list"

definition world_start :: "nat \<Rightarrow> instant \<Rightarrow> ('t, ('e, 'x, 'y) pumps) world" where
  "world_start recent_buffer t0 = \<lparr>ws_system = sys_start recent_buffer t0, ws_pending = (\<lambda>_. []),
     ws_streams = (\<lambda>_. pumps_start), ws_calls = []\<rparr>"

text \<open>The observations an event of a stream adds.\<close>

definition newly_emitted :: "('e, 'x, 'y) pumps \<Rightarrow> ('e, 'x, 'y) pumps \<Rightarrow> observation list" where
  "newly_emitted p p' = drop (length (emitted p)) (emitted p')"

inductive world_step ::
  "nat \<Rightarrow> instant \<Rightarrow> 'addr proxy_server \<Rightarrow> ((string, string) mapping \<Rightarrow> (string \<times> string) list) \<Rightarrow>
   (nat \<Rightarrow> socket_addr option) \<Rightarrow> (nat \<Rightarrow> (string \<times> string) list) \<Rightarrow>
   (('e, 'r, 'z, 'b, 'u, 's, 'f) traffic, ('g, 'x, 'y) pumps) world \<Rightarrow>
   (('e, 'r, 'z, 'b, 'u, 's, 'f) traffic, ('g, 'x, 'y) pumps) world \<Rightarrow> bool" for recent_buffer lo px iter peer metadata where
  serves: "ws_pending w k = [] \<Longrightarrow>
    world_step recent_buffer lo px iter peer metadata w
      (w\<lparr>ws_pending := (ws_pending w)(k := observed px iter t), ws_calls := ws_calls w @ [t]\<rparr>)"
| streams: "ws_pending w k = [] \<Longrightarrow> p' = pump_step (peer k) (metadata k) event (ws_streams w k) \<Longrightarrow>
    world_step recent_buffer lo px iter peer metadata w
      (w\<lparr>ws_pending := (ws_pending w)(k := newly_emitted (ws_streams w k) p'),
         ws_streams := (ws_streams w)(k := p')\<rparr>)"
| sends: "ws_pending w k = obs # rest \<Longrightarrow> s = ws_system w \<Longrightarrow>
    world_step recent_buffer lo px iter peer metadata w
      (w\<lparr>ws_pending := (ws_pending w)(k := rest),
         ws_system := s\<lparr>sy_monitor := produce obs (sy_monitor s)\<rparr>\<rparr>)"
| owner: "s = ws_system w \<Longrightarrow> observer_step recent_buffer (sy_monitor s) ob \<Longrightarrow>
    accepted ob = accepted (sy_monitor s) \<Longrightarrow>
    world_step recent_buffer lo px iter peer metadata w (w\<lparr>ws_system := s\<lparr>sy_monitor := ob\<rparr>\<rparr>)"
| interface: "s = ws_system w \<Longrightarrow> viewer_step lo (snapshots (sy_monitor s)) (sy_viewers s i) v \<Longrightarrow>
    world_step recent_buffer lo px iter peer metadata w (w\<lparr>ws_system := s\<lparr>sy_viewers := (sy_viewers s)(i := v)\<rparr>\<rparr>)"

inductive world_reachable for recent_buffer lo px iter peer metadata where
  world_init: "world_reachable recent_buffer lo px iter peer metadata (world_start recent_buffer t0)"
| world_next: "world_reachable recent_buffer lo px iter peer metadata w \<Longrightarrow>
    world_step recent_buffer lo px iter peer metadata w w' \<Longrightarrow>
    world_reachable recent_buffer lo px iter peer metadata w'"

text \<open>The world without its traffic is the system of theory System.\<close>

lemma world_system: "world_step cap lo px iter peer metadata w w' \<Longrightarrow>
    ws_system w' = ws_system w \<or> sys_step cap lo (ws_system w) (ws_system w')"
proof (induction rule: world_step.induct)
  case (sends w k obs rest s)
  have "sys_step cap lo s (s\<lparr>sy_monitor := produce obs (sy_monitor s)\<rparr>)"
    by (rule sys_step.monitor_step) (rule observer_step.emit)
  with sends show ?case by simp
qed (auto intro: sys_step.intros)

lemma world_sys_reachable: "world_reachable cap lo px iter peer metadata w \<Longrightarrow> sys_reachable cap lo (ws_system w)"
proof (induction rule: world_reachable.induct)
  case (world_init t0)
  show ?case by (simp add: world_start_def sys_reachable.sys_init)
next
  case (world_next w w')
  with world_system [OF world_next.hyps(2)] show ?case by (auto intro: sys_reachable.sys_next)
qed

subsection \<open>Where observations come from\<close>

definition caused :: "'addr proxy_server \<Rightarrow> ((string, string) mapping \<Rightarrow> (string \<times> string) list) \<Rightarrow>
   (('e, 'r, 'z, 'b, 'u, 's, 'f) traffic, ('g, 'x, 'y) pumps) world \<Rightarrow> observation \<Rightarrow> bool" where
  "caused px iter w obs \<longleftrightarrow> (\<exists>t \<in> set (ws_calls w). obs \<in> set (observed px iter t)) \<or>
     (\<exists>k. obs \<in> set (emitted (ws_streams w k)))"

definition world_inv where
  "world_inv px iter w \<longleftrightarrow> (\<forall>obs \<in> set (accepted (sy_monitor (ws_system w))). caused px iter w obs) \<and>
     (\<forall>k. \<forall>obs \<in> set (ws_pending w k). caused px iter w obs)"

lemma inbound_emits: "\<exists>new. emitted (inbound_step peer event at p) = emitted p @ new"
  by (cases "(peer, event, at, p)" rule: inbound_step.cases) (simp_all add: tap_client_frame_def Let_def)

lemma outbound_emits: "\<exists>new. emitted (outbound_step peer metadata event at p) = emitted p @ new"
  by (cases "(peer, metadata, event, at, p)" rule: outbound_step.cases) (simp_all add: tap_server_frame_def Let_def)

lemma pump_emits: "\<exists>new. emitted (pump_step peer metadata event p) = emitted p @ new"
proof -
  obtain a where a: "emitted (inbound_step peer event (inbound_at p) p) = emitted p @ a"
    using inbound_emits by blast
  obtain b where "emitted (outbound_step peer metadata event (outbound_at (inbound_step peer event (inbound_at p) p))
      (inbound_step peer event (inbound_at p) p)) = emitted (inbound_step peer event (inbound_at p) p) @ b"
    using outbound_emits by blast
  with a show ?thesis
    by (auto simp: pump_step_def tear_down_def Let_def split: pump_event.split)
qed

lemma accepted_produce: "set (accepted (produce obs ob)) \<subseteq> insert obs (set (accepted ob))"
  by (auto simp: produce_def try_send_def Let_def)

lemma world_step_inv: "world_step cap lo px iter peer metadata w w' \<Longrightarrow> world_inv px iter w \<Longrightarrow> world_inv px iter w'"
proof (induction rule: world_step.induct)
  case (serves w k t)
  then show ?case by (auto simp: world_inv_def caused_def)
next
  case (streams w k p' event)
  obtain new where "emitted p' = emitted (ws_streams w k) @ new"
    using pump_emits [of "peer k" "metadata k" event "ws_streams w k"] streams(2) by auto
  with streams show ?case by (fastforce simp: world_inv_def caused_def newly_emitted_def)
next
  case (sends w k obs rest s)
  then have "obs \<in> set (ws_pending w k)" by simp
  with sends have "caused px iter w obs" unfolding world_inv_def by blast
  moreover have "caused px iter (w\<lparr>ws_pending := P, ws_system := S\<rparr>) = caused px iter w" for P S
    by (simp add: caused_def fun_eq_iff)
  moreover have "\<forall>o' \<in> set rest. caused px iter w o'"
    using sends.hyps(1) sends.prems unfolding world_inv_def by (metis list.set_intros(2))
  ultimately show ?case
    using sends(3) accepted_produce [of obs "sy_monitor s"] by (auto simp: world_inv_def sends(2))
qed (auto simp: world_inv_def caused_def)

lemma world_reachable_inv: "world_reachable cap lo px iter peer metadata w \<Longrightarrow> world_inv px iter w"
proof (induction rule: world_reachable.induct)
  case (world_init t0)
  show ?case by (simp add: world_inv_def world_start_def sys_start_def observer_start_def)
next
  case (world_next w w')
  then show ?case by (blast intro: world_step_inv)
qed

subsection \<open>Where the messages of a state come from\<close>

definition from_publish :: "observation set \<Rightarrow> RecentMessage \<Rightarrow> bool" where
  "from_publish obss m \<longleftrightarrow> (\<exists>peer messages. Publish (rm_topic m) peer messages \<in> obss \<and>
     (\<exists>pm \<in> set messages. rm_data m = pm_data pm \<and> rm_attributes m = pm_attributes pm \<and> rm_truncated m = pm_truncated pm))"

lemma stamped_from: "m \<in> set (stamped topic now seq ms) \<Longrightarrow> rm_topic m = topic \<and>
    (\<exists>pm \<in> set ms. rm_data m = pm_data pm \<and> rm_attributes m = pm_attributes pm \<and> rm_truncated m = pm_truncated pm)"
  by (induction ms arbitrary: seq) auto

lemma appended_from: "m \<in> set (appended obs now seq) \<Longrightarrow> from_publish {obs} m"
  by (cases obs) (auto simp: from_publish_def dest: stamped_from)

lemma from_publish_mono: "from_publish A m \<Longrightarrow> A \<subseteq> B \<Longrightarrow> from_publish B m"
  unfolding from_publish_def by blast

lemma fold_obs_from:
  "m \<in> set (recent_messages (fold_obs es st)) \<Longrightarrow> m \<in> set (recent_messages st) \<or> from_publish (fst ` set es) m"
proof (induction es arbitrary: st)
  case (Cons e es)
  then consider "m \<in> set (recent_messages (apply_timed e st))" | "from_publish (fst ` set es) m" by auto
  then show ?case
    by cases (auto simp: apply_timed_def apply_obs_recent dest!: appended_from intro: from_publish_mono)
qed simp

lemma stage_from:
  assumes "m \<in> set (recent_messages (stage cap es n))"
  shows "from_publish (fst ` set es) m"
proof (cases n)
  case 0
  with assms show ?thesis by (simp add: stage_def default_state_def)
next
  case (Suc k)
  with assms have "m \<in> set (recent_messages (fold_obs (take k es) (start_state cap)))"
    by (auto simp: stage_def view_of_def dest: in_set_dropD)
  then have "from_publish (fst ` set (take k es)) m"
    using fold_obs_from [of m "take k es" "start_state cap"] by (auto simp: start_state_def default_state_def)
  then show ?thesis by (rule from_publish_mono) (auto dest: in_set_takeD)
qed

lemma over_wire_from:
  assumes "m \<in> set (recent_messages (from_wire lo (to_wire st sent) later))" and "\<And>m. m \<in> set (recent_messages st) \<Longrightarrow> from_publish A m"
  shows "from_publish A m"
proof -
  from assms(1) obtain m' where "m' \<in> set (recent_messages st)" "m = message_from_wire lo (message_to_wire m' sent) later"
    by (auto simp: from_wire_def to_wire_def)
  with assms(2) [of m'] show ?thesis
    by (simp add: from_publish_def message_from_wire_def message_to_wire_def comp_def case_prod_unfold)
qed

text \<open>Every message an interface shows was observed in a publish.\<close>

lemma shown_from:
  assumes "sys_inv cap lo s" and "m \<in> set (recent_messages (link_state (vw_link (sy_viewers s i))))"
  shows "from_publish (set (accepted (sy_monitor s))) m"
proof -
  let ?l = "vw_link (sy_viewers s i)"
  obtain es ms where es: "prefix (map fst es) (accepted (sy_monitor s))"
    and shown: "list_all2 (\<lambda>r m. \<exists>sent. fst r = to_wire (stage cap es m) sent) (received ?l) ms"
    using shown_in_order [OF assms(1)] by blast
  have link: "link_state ?l = (if received ?l = [] then default_state
      else from_wire lo (fst (last (received ?l))) (snd (last (received ?l))))"
    using assms(1) by (simp add: sys_inv_def viewer_inv_def link_inv_def)
  with assms(2) have ne: "received ?l \<noteq> []" by (auto simp: default_state_def)
  then have "last (received ?l) \<in> set (received ?l)" by simp
  with shown obtain n sent where "fst (last (received ?l)) = to_wire (stage cap es n) sent"
    by (auto simp: list_all2_conv_all_nth in_set_conv_nth)
  with assms(2) ne have "m \<in> set (recent_messages (from_wire lo (to_wire (stage cap es n) sent) (snd (last (received ?l)))))"
    by (simp add: link)
  then have "from_publish (fst ` set es) m" by (rule over_wire_from) (rule stage_from)
  moreover have "fst ` set es \<subseteq> set (accepted (sy_monitor s))"
    using set_mono_prefix [OF es] by simp
  ultimately show ?thesis by (rule from_publish_mono)
qed

subsection \<open>Which events publish\<close>

fun is_publish :: "observation \<Rightarrow> bool" where
  "is_publish (Publish topic peer messages) = True"
| "is_publish _ = False"

lemma pumps_never_publish: "\<forall>obs \<in> set (emitted p). \<not> is_publish obs \<Longrightarrow>
    \<forall>obs \<in> set (emitted (pump_step peer metadata event p)). \<not> is_publish obs"
proof -
  have up: "\<forall>obs \<in> set (emitted (inbound_step peer event at p)). \<not> is_publish obs"
    if "\<forall>obs \<in> set (emitted p). \<not> is_publish obs" for at and p :: "('a, 'b, 'c) pumps"
    using that by (cases "(peer, event, at, p)" rule: inbound_step.cases) (auto simp: tap_client_frame_def Let_def)
  have down: "\<forall>obs \<in> set (emitted (outbound_step peer metadata event at p)). \<not> is_publish obs"
    if "\<forall>obs \<in> set (emitted p). \<not> is_publish obs" for at and p :: "('a, 'b, 'c) pumps"
    using that by (cases "(peer, metadata, event, at, p)" rule: outbound_step.cases) (auto simp: tap_server_frame_def Let_def)
  assume "\<forall>obs \<in> set (emitted p). \<not> is_publish obs"
  then show ?thesis
    by (auto simp: pump_step_def tear_down_def Let_def split: pump_event.split dest: bspec [OF down [OF up]])
qed

lemma streams_never_publish:
  "world_reachable cap lo px iter peer metadata w \<Longrightarrow> \<forall>obs \<in> set (emitted (ws_streams w k)). \<not> is_publish obs"
proof (induction rule: world_reachable.induct)
  case (world_init t0)
  show ?case by (simp add: world_start_def pumps_start_def)
next
  case (world_next w w')
  from world_next.hyps(2) world_next.IH show ?case
    by cases (simp_all add: pumps_never_publish)
qed

lemma capture_parts:
  "pm_data (capture self iter msg) = take (payload_cap self) (msg_data msg)"
  "pm_attributes (capture self iter msg) = iter (msg_attributes msg)"
  "pm_truncated (capture self iter msg) = (take (payload_cap self) (msg_data msg) \<noteq> msg_data msg)"
proof -
  have "take (min (length (msg_data msg)) (payload_cap self)) (msg_data msg) = take (payload_cap self) (msg_data msg)"
    by (simp add: min_def)
  moreover have "payload_cap self < length (msg_data msg) \<longleftrightarrow> take (payload_cap self) (msg_data msg) \<noteq> msg_data msg"
    by (metis length_take linorder_not_less min.absorb_iff2 min.commute nat_less_le take_all)
  ultimately show "pm_data (capture self iter msg) = take (payload_cap self) (msg_data msg)"
    "pm_attributes (capture self iter msg) = iter (msg_attributes msg)"
    "pm_truncated (capture self iter msg) = (take (payload_cap self) (msg_data msg) \<noteq> msg_data msg)"
    by (simp_all add: capture_def Let_def)
qed

lemma rest_publish_verb:
  assumes "Publish topic peer messages \<in> set (rest_observe env self method path qh qb status rh rb client)"
  shows "resource_and_verb path = Some (topic, ''publish'')"
proof -
  obtain verb where rv: "resource_and_verb path = Some (topic, verb)"
    and one: "rest_observe env self method path qh qb status rh rb client = [Publish topic peer messages]"
    using rest_observe_cases [OF assms] by auto
  have "verb = ''publish''"
  proof (rule ccontr)
    assume "verb \<noteq> ''publish''"
    with one rv show False
      by (simp add: rest_observe_def Let_def split: if_splits option.splits)
  qed
  with rv show ?thesis by simp
qed

lemma rest_call_verb:
  assumes "Publish topic peer messages \<in> set (snd (handle env self request))"
  shows "resource_and_verb (uri_path (hr_uri request)) = Some (topic, ''publish'')"
  using assms by (auto simp: handle_def Let_def dest: rest_publish_verb split: option.splits)

subsection \<open>Property\<close>

lemma shown_caused:
  assumes "world_reachable cap lo px iter peer metadata w"
    and "m \<in> set (recent_messages (link_state (vw_link (sy_viewers (ws_system w) i))))"
  shows "\<exists>t client messages pm. t \<in> set (ws_calls w) \<and> Publish (rm_topic m) client messages \<in> set (observed px iter t) \<and>
    pm \<in> set messages \<and> rm_data m = pm_data pm \<and> rm_attributes m = pm_attributes pm \<and> rm_truncated m = pm_truncated pm"
proof -
  have "sys_inv cap lo (ws_system w)" using assms(1) by (intro sys_reachable_inv world_sys_reachable)
  from shown_from [OF this assms(2)] obtain client messages pm
    where obs: "Publish (rm_topic m) client messages \<in> set (accepted (sy_monitor (ws_system w)))"
    and pm: "pm \<in> set messages" "rm_data m = pm_data pm" "rm_attributes m = pm_attributes pm" "rm_truncated m = pm_truncated pm"
    unfolding from_publish_def by blast
  have "caused px iter w (Publish (rm_topic m) client messages)"
    using world_reachable_inv [OF assms(1)] obs by (simp add: world_inv_def)
  then obtain t where "t \<in> set (ws_calls w)" "Publish (rm_topic m) client messages \<in> set (observed px iter t)"
    using streams_never_publish [OF assms(1)] unfolding caused_def by (metis is_publish.simps(1))
  with pm show ?thesis by blast
qed

text \<open>
  Claim C2. Nothing on a screen is invented: in any run of the whole program, a message an interface shows was published
  by a client in a call the upstream accepted: either over gRPC, to the topic shown, with the bytes shown as
  the first of its payload up to the configured cap and the attributes shown; or over REST, in a POST
  on that topic that the client saw succeed, as captured from its body.
\<close>

theorem nothing_shown_is_invented:
  assumes "world_reachable cap lo px iter peer metadata w"
    and "m \<in> set (recent_messages (link_state (vw_link (sy_viewers (ws_system w) i))))"
  shows "(\<exists>up request response msg. PublishCall up request \<in> set (ws_calls w) \<and> up request = Inr response \<and>
       rm_topic m = pub_topic (rq_message request) \<and> msg \<in> set (pub_messages (rq_message request)) \<and>
       rm_data m = take (payload_cap (px_publisher px)) (msg_data msg) \<and> rm_attributes m = iter (msg_attributes msg) \<and>
       rm_truncated m = (rm_data m \<noteq> msg_data msg)) \<or>
    (\<exists>env request client messages pm. RestCall env request \<in> set (ws_calls w) \<and> hr_method request = ''POST'' \<and>
       is_success (hs_status (fst (handle env (px_rest px) request))) \<and>
       resource_and_verb (uri_path (hr_uri request)) = Some (rm_topic m, ''publish'') \<and>
       snd (handle env (px_rest px) request) = [Publish (rm_topic m) client messages] \<and> pm \<in> set messages \<and>
       rm_data m = pm_data pm \<and> rm_attributes m = pm_attributes pm \<and> rm_truncated m = pm_truncated pm)"
proof -
  from shown_caused [OF assms] obtain t client messages pm where t: "t \<in> set (ws_calls w)"
    and obs: "Publish (rm_topic m) client messages \<in> set (observed px iter t)" and pm: "pm \<in> set messages"
      "rm_data m = pm_data pm" "rm_attributes m = pm_attributes pm" "rm_truncated m = pm_truncated pm" by blast
  show ?thesis
  proof (cases t)
    case (PublishCall up request)
    with obs obtain response where "up request = Inr response" and c: "rm_topic m = pub_topic (rq_message request)"
      "messages = map (capture (px_publisher px) iter) (pub_messages (rq_message request))"
      by (auto simp: publish_def Let_def split: sum.splits)
    moreover from c pm obtain msg where msg: "msg \<in> set (pub_messages (rq_message request))"
      "pm = capture (px_publisher px) iter msg" by auto
    moreover have "rm_data m = take (payload_cap (px_publisher px)) (msg_data msg)" "rm_attributes m = iter (msg_attributes msg)"
      "rm_truncated m = (rm_data m \<noteq> msg_data msg)"
      using pm capture_parts [of "px_publisher px" iter msg] by (simp_all add: msg(2))
    ultimately show ?thesis using t PublishCall by blast
  next
    case (RestCall env request)
    with obs have o: "Publish (rm_topic m) client messages \<in> set (snd (handle env (px_rest px) request))" by simp
    then show ?thesis
      using t RestCall pm rest_call_cases [OF o] rest_call_verb [OF o] by blast
  next
    case (PullCall up request)
    with obs show ?thesis by (auto simp: pull_def Let_def split: sum.splits)
  next
    case (AckCall up request)
    with obs show ?thesis by (auto simp: acknowledge_def Let_def split: sum.splits)
  next
    case (PollTick client)
    with obs show ?thesis by (auto simp: poll_tick_def poll_once_def split: sum.splits)
  qed
qed

text \<open>A run to apply this to: one call publishes two bytes where the cap is 1, and the interface 0 shows them.\<close>

type_synonym small_world = "((unit, unit, unit, unit, unit, unit, unit) traffic, (unit, unit, unit) pumps) world"

definition small_proxy :: "unit proxy_server" where
  "small_proxy = the (serve (\<lambda>_. True) () ''up:1'' 1)"

definition small_request :: "PublishRequest grpc_request" where
  "small_request = \<lparr>rq_message = \<lparr>pub_topic = ''t'', pub_messages =
     [\<lparr>msg_data = [1, 2], msg_attributes = Mapping.empty, msg_ordering_key = []\<rparr>]\<rparr>, rq_metadata = [], rq_remote_addr = None\<rparr>"

definition small_call :: "(unit, unit, unit, unit, unit, unit, unit) traffic" where
  "small_call = PublishCall (\<lambda>_. Inr ()) small_request"

definition small_obs :: observation where
  "small_obs = Publish ''t'' None [capture \<lparr>payload_cap = 1\<rparr> hash_entries
     \<lparr>msg_data = [1, 2], msg_attributes = Mapping.empty, msg_ordering_key = []\<rparr>]"

definition small_monitor :: observer where
  "small_monitor = end_burst 2 (fold_one small_obs 5 (channel_new 8192) (produce small_obs (observer_start 2 0)))"

definition small_world :: "observer \<Rightarrow> viewer \<Rightarrow> small_world" where
  "small_world ob v = \<lparr>ws_system = \<lparr>sy_monitor = ob, sy_viewers = (\<lambda>_. viewer_start)(0 := v)\<rparr>, ws_pending = (\<lambda>_. []),
     ws_streams = (\<lambda>_. pumps_start), ws_calls = [small_call]\<rparr>"

abbreviation small_reachable :: "small_world \<Rightarrow> bool" where
  "small_reachable \<equiv> world_reachable 2 0 small_proxy hash_entries (\<lambda>_. None) (\<lambda>_. [])"

lemma small_proxy_cap: "px_publisher small_proxy = \<lparr>payload_cap = 1\<rparr>"
  by (simp add: small_proxy_def serve_defs Let_def)

lemma small_observed: "observed small_proxy hash_entries small_call = [small_obs]"
  by (simp add: small_call_def publish_def small_proxy_cap small_request_def small_obs_def Let_def)

lemma small_published: "small_reachable (small_world (produce small_obs (observer_start 2 0)) viewer_start)"
proof -
  let ?w0 = "world_start 2 0 :: small_world"
  let ?w1 = "?w0\<lparr>ws_pending := (ws_pending ?w0)(0 := [small_obs]), ws_calls := ws_calls ?w0 @ [small_call]\<rparr>"
  have "small_reachable ?w1"
    using world_reachable.world_next [OF world_reachable.world_init [of 2 0 small_proxy hash_entries "\<lambda>_. None" "\<lambda>_. []" 0]
      world_step.serves [of ?w0 0 2 0 small_proxy hash_entries "\<lambda>_. None" "\<lambda>_. []" small_call]]
    by (simp add: small_observed world_start_def)
  moreover have "world_step 2 0 small_proxy hash_entries (\<lambda>_. None) (\<lambda>_. []) ?w1
      (small_world (produce small_obs (observer_start 2 0)) viewer_start)"
    using world_step.sends [of ?w1 0 small_obs "[]" _ 2 0 small_proxy hash_entries "\<lambda>_. None" "\<lambda>_. []"]
    by (simp add: small_world_def world_start_def sys_start_def fun_upd_def cong: if_cong)
  ultimately show ?thesis by (rule world_reachable.world_next)
qed

lemma small_owner:
  assumes "small_reachable (small_world ob v)" and "observer_step 2 ob ob'" and "accepted ob' = accepted ob"
  shows "small_reachable (small_world ob' v)"
  using world_reachable.world_next [OF assms(1) world_step.owner [OF refl, of 2 _ ob']] assms(2,3)
  by (simp add: small_world_def)

lemma small_viewer:
  assumes "small_reachable (small_world ob v)" and "(viewer_step 0 (snapshots ob))\<^sup>*\<^sup>* v v'"
  shows "small_reachable (small_world ob v')"
  using assms(2,1)
proof (induction rule: rtranclp_induct)
  case (step u u')
  with world_reachable.world_next [OF step.IH world_step.interface [OF refl, of _ _ 0 u']]
  show ?case by (simp add: small_world_def)
qed simp

lemma small_monitor_shown:
  "small_reachable (small_world small_monitor viewer_start)"
  "snapshots small_monitor = [default_state, trim_recent 2 (apply_obs small_obs 5 (start_state 2))]"
proof -
  let ?ob = "produce small_obs (observer_start 2 0)"
  let ?mid = "fold_one small_obs 5 (channel_new 8192) ?ob"
  note defs = fold_one_def produce_def observer_start_def channel_new_def try_send_def try_recv_def end_burst_def
  have "observer_step 2 ?ob ?mid" by (rule observer_step.receive) (simp_all add: defs)
  with small_published have "small_reachable (small_world ?mid viewer_start)"
    by (rule small_owner) (simp add: defs)
  moreover have "observer_step 2 ?mid small_monitor"
    unfolding small_monitor_def by (rule observer_step.snapshot) (simp_all add: defs)
  ultimately show "small_reachable (small_world small_monitor viewer_start)"
    by (rule small_owner) (simp add: small_monitor_def defs)
  show "snapshots small_monitor = [default_state, trim_recent 2 (apply_obs small_obs 5 (start_state 2))]"
    by (simp add: small_monitor_def defs)
qed

lemma small_shown:
  "\<exists>v m. small_reachable (small_world small_monitor v) \<and> m \<in> set (recent_messages (link_state (vw_link v))) \<and> rm_topic m = ''t''"
proof -
  let ?st = "trim_recent 2 (apply_obs small_obs 5 (start_state 2))"
  obtain v sent later where v: "(viewer_step 0 (snapshots small_monitor))\<^sup>*\<^sup>* viewer_start v"
    "link_state (vw_link v) = from_wire 0 (to_wire ?st sent) later"
    using viewer_catches_up [OF viewer_start_inv, of "snapshots small_monitor" 0]
    by (auto simp: small_monitor_shown(2) viewer_start_def link_start_def)
  have "map rm_topic (recent_messages ?st) = [''t'']"
    unfolding trim_recent_def apply_obs_recent AppState.simps small_obs_def
    by (simp add: start_state_def default_state_def)
  moreover have "map rm_topic (recent_messages (from_wire 0 (to_wire ?st sent) later)) = map rm_topic (recent_messages ?st)"
    by (simp add: from_wire_def to_wire_def message_from_wire_def message_to_wire_def comp_def case_prod_unfold)
  ultimately have "''t'' \<in> rm_topic ` set (recent_messages (link_state (vw_link v)))"
    by (metis v(2) list.set_intros(1) list.set_map)
  moreover have "small_reachable (small_world small_monitor v)"
    by (rule small_viewer [OF small_monitor_shown(1) v(1)])
  ultimately show ?thesis by force
qed

theorem nothing_shown_is_invented_witness:
  "\<exists>v m. small_reachable (small_world small_monitor v) \<and> m \<in> set (recent_messages (link_state (vw_link v))) \<and>
     rm_topic m = ''t'' \<and> rm_data m = [1] \<and> rm_truncated m"
proof -
  obtain v m where r: "small_reachable (small_world small_monitor v)"
    and m: "m \<in> set (recent_messages (link_state (vw_link v)))" "rm_topic m = ''t''"
    using small_shown by blast
  have "m \<in> set (recent_messages (link_state (vw_link (sy_viewers (ws_system (small_world small_monitor v)) 0))))"
    using m(1) by (simp add: small_world_def)
  from nothing_shown_is_invented [OF r this] m show ?thesis
    using r by (auto simp: small_world_def small_call_def small_request_def small_proxy_cap)
qed

end
