(* ===== verification/Unit_Tests.thy ===== *)
theory Unit_Tests
  imports Convert App_Facts Loadgen Rest
begin

text \<open>
  The repository's own unit tests (the \<^verbatim>\<open>mod tests\<close> of \<^verbatim>\<open>observe/state.rs\<close>, \<^verbatim>\<open>monitor/convert.rs\<close>, \<^verbatim>\<open>proxy/rest.rs\<close>,
  \<^verbatim>\<open>ui/message_view.rs\<close> and \<^verbatim>\<open>ui/app.rs\<close>) on the definitions of this development: each test is a Boolean that
  builds the same input and makes the same assertions, for any reading \<open>now\<close> of the clock, and is shown to
  hold. A lookup that would panic makes the test fail.
\<close>

subsection \<open>The state\<close>

definition localhost :: "u16 \<Rightarrow> socket_addr option" where
  "localhost port = Some (V4 127 0 0 1 port)"

definition test_message :: "bytes \<Rightarrow> PublishedMessage" where
  "test_message data = \<lparr>pm_data = data, pm_attributes = [], pm_original_len = length data, pm_truncated = False\<rparr>"

definition test_msgs :: "nat \<Rightarrow> PublishedMessage list" where
  "test_msgs n = map (\<lambda>_. test_message []) [0..<n]"

definition test_admin :: "string list \<Rightarrow> (string \<times> string) list \<Rightarrow> observation" where
  "test_admin names subs =
     AdminSnapshot names (map (\<lambda>(name, topic). \<lparr>si_name = name, si_topic = topic\<rparr>) subs)"

definition test_publish_accumulates :: "instant \<Rightarrow> bool" where
  "test_publish_accumulates now =
     (let state = default_state;
          state = apply_obs (Publish ''t1'' (localhost 5000) (test_msgs 3)) now state;
          state = apply_obs (Publish ''t1'' (localhost 5000) (test_msgs 2)) now state;
          state = apply_obs (Publish ''t1'' (localhost 6000) (test_msgs 1)) now state
      in (case bt_get (topics state) ''t1'' of None \<Rightarrow> False | Some topic \<Rightarrow>
            publish_count topic = 6 \<and>
            map_option published (bt_get (publishers topic) ''127.0.0.1:5000'') = Some 5 \<and>
            map_option published (bt_get (publishers topic) ''127.0.0.1:6000'') = Some 1) \<and>
         connected_publishers state now = 2)"

definition test_recent_messages :: "instant \<Rightarrow> bool" where
  "test_recent_messages now =
     (let state = apply_obs (Publish ''projects/p/topics/orders'' (localhost 5000)
            [test_message (string_bytes ''first''), test_message (string_bytes ''second'')]) now default_state
      in length (recent_messages state) = 2 \<and> map rm_seq (recent_messages state) = [0, 1] \<and>
         rm_topic (recent_messages state ! 0) = ''projects/p/topics/orders'' \<and>
         rm_data (recent_messages state ! 1) = string_bytes ''second'')"

definition test_trim_recent :: "instant \<Rightarrow> bool" where
  "test_trim_recent now =
     (let state = fold (\<lambda>n. apply_obs (Publish ''t'' (localhost 5000) [test_message [n]]) now) [0, 1, 2, 3, 4] default_state;
          state = trim_recent 3 state
      in map rm_seq (recent_messages state) = [2, 3, 4] \<and>
         map_option rm_data (front_of (recent_messages state)) = Some [2])"

definition test_ack_counts :: "instant \<Rightarrow> bool" where
  "test_ack_counts now =
     (let state = apply_obs (test_admin [''t1''] [(''s1'', ''t1''), (''s2'', ''t1'')]) now default_state;
          state = apply_obs (Ack ''s1'' (localhost 7000) 4) now state
      in map_option acked (bt_get (subscriptions state) ''s1'') = Some 4 \<and>
         map fst (active_consumers_of state ''t1'') = [''s1''])"

definition test_live_consumers :: "instant \<Rightarrow> bool" where
  "test_live_consumers now =
     (let open_s1 = ConsumerOpen ''s1'' (localhost 8000);
          state = apply_obs open_s1 now (apply_obs open_s1 now default_state)
      in connected_consumers state = 2 \<and>
         connected_consumers (apply_obs (ConsumerClose ''s1'' (localhost 8000)) now state) = 1)"

definition test_admin_snapshot :: "instant \<Rightarrow> bool" where
  "test_admin_snapshot now =
     (let state = apply_obs (test_admin [''t1'', ''t2''] [(''s1'', ''t1'')]) now default_state
      in topic_count state = 2 \<and>
         map_option sub_topic (bt_get (subscriptions state) ''s1'') = Some (Some ''t1'') \<and>
         topic_count (apply_obs (test_admin [''t1''] [(''s1'', ''t1'')]) now state) = 1)"

lemma digit_chars:
  "digit_char 0 = CHR ''0''" "digit_char (Suc 0) = CHR ''1''" "digit_char 2 = CHR ''2''" "digit_char 3 = CHR ''3''"
  "digit_char 4 = CHR ''4''" "digit_char 5 = CHR ''5''" "digit_char 6 = CHR ''6''" "digit_char 7 = CHR ''7''"
  "digit_char 8 = CHR ''8''" "digit_char 9 = CHR ''9''" "digit_char (Suc (Suc 0)) = CHR ''2''"
  by code_simp+

lemma show_ports: "peer_key (localhost 5000) = ''127.0.0.1:5000''" "peer_key (localhost 6000) = ''127.0.0.1:6000''"
  by (simp_all add: peer_key_def localhost_def show_ipv4_def show_radix.simps digit_chars)

lemma upt_tests: "[0..<3] = [0, 1, 2 :: nat]" "[0..<2] = [0, 1 :: nat]" "[0..<1] = [0 :: nat]" "[0..<7] = [0, 1, 2, 3, 4, 5, 6 :: nat]"
  by (simp_all add: upt_conv_Cons)

lemmas state_test_defs = bt_upsert_def record_publish_def show_ports test_msgs_def test_message_def test_admin_def
  upt_tests apply_publish_eq apply_admin_eq subscription_mut_def state_defs

definition after_publishes :: "instant \<Rightarrow> Topic" where
  "after_publishes now = \<lparr>topic_exists = False, publish_count = 6, publishers =
     [(''127.0.0.1:5000'', \<lparr>published = 5, last_seen = now\<rparr>), (''127.0.0.1:6000'', \<lparr>published = 1, last_seen = now\<rparr>)]\<rparr>"

lemma publish_accumulates: "test_publish_accumulates now"
proof -
  have "topics (apply_obs (Publish ''t1'' (localhost 5000) (test_msgs 3)) now default_state) =
      [(''t1'', \<lparr>topic_exists = False, publish_count = 3, publishers = [(''127.0.0.1:5000'', \<lparr>published = 3, last_seen = now\<rparr>)]\<rparr>)]"
    (is "topics ?s1 = [(_, ?t1)]")
    by (simp add: state_test_defs)
  moreover have "record_publish (localhost 5000) 2 now ?t1 =
     \<lparr>topic_exists = False, publish_count = 5, publishers = [(''127.0.0.1:5000'', \<lparr>published = 5, last_seen = now\<rparr>)]\<rparr>" (is "_ = ?t2")
    by (simp add: state_test_defs)
  moreover have "record_publish (localhost 6000) 1 now ?t2 = after_publishes now"
    by (simp add: state_test_defs after_publishes_def)
  ultimately have "topics (apply_obs (Publish ''t1'' (localhost 6000) (test_msgs 1)) now
      (apply_obs (Publish ''t1'' (localhost 5000) (test_msgs 2)) now ?s1)) = [(''t1'', after_publishes now)]"
    by (simp add: apply_publish_eq bt_upsert_def test_msgs_def)
  then show ?thesis
    by (simp add: test_publish_accumulates_def connected_publishers_def after_publishes_def saturating_duration_since_def
      Let_def del: apply_obs.simps)
qed

lemma state_tests:
  "test_publish_accumulates now" "test_recent_messages now" "test_trim_recent now" "test_ack_counts now"
  "test_live_consumers now" "test_admin_snapshot now"
proof -
  show "test_publish_accumulates now"
    by (rule publish_accumulates)
  show "test_recent_messages now"
    by (simp add: test_recent_messages_def state_test_defs)
  show "test_trim_recent now"
    by (simp add: test_trim_recent_def state_test_defs front_of_def)
  show "test_ack_counts now"
    by (simp add: test_ack_counts_def state_test_defs active_consumers_of_def)
  show "test_live_consumers now"
    by (simp add: test_live_consumers_def state_test_defs connected_consumers_def saturating_sub_def)
  show "test_admin_snapshot now"
    by (simp add: test_admin_snapshot_def state_test_defs topic_count_def)
qed

subsection \<open>The conversion\<close>

text \<open>The time a test adds to an instant.\<close>

definition plus_millis :: "instant \<Rightarrow> u64 \<Rightarrow> instant" where
  "plus_millis t ms = t + int (from_millis ms)"

definition test_round_trip_counts :: "instant \<Rightarrow> instant \<Rightarrow> bool" where
  "test_round_trip_counts lo now =
     (let state = default_state\<lparr>
            topics := bt_insert ''projects/p/topics/orders'' \<lparr>topic_exists = True, publish_count = 9,
              publishers = bt_insert ''127.0.0.1:5000'' \<lparr>published = 9, last_seen = now\<rparr> []\<rparr> [],
            subscriptions := bt_insert ''projects/p/subscriptions/billing'' \<lparr>sub_exists = True,
              sub_topic = Some ''projects/p/topics/orders'', delivered = 5, acked = 4, live_consumers = 2\<rparr> []\<rparr>;
          wire = to_wire state now;
          later = plus_millis now 50;
          restored = from_wire lo wire later
      in (case bt_get (topics restored) ''projects/p/topics/orders'' of None \<Rightarrow> False | Some topic \<Rightarrow>
            topic_exists topic \<and> publish_count topic = 9 \<and>
            map_option published (bt_get (publishers topic) ''127.0.0.1:5000'') = Some 9) \<and>
         connected_publishers restored later = 1 \<and>
         (case bt_get (subscriptions restored) ''projects/p/subscriptions/billing'' of None \<Rightarrow> False | Some sub \<Rightarrow>
            sub_topic sub = Some ''projects/p/topics/orders'' \<and> delivered sub = 5 \<and> acked sub = 4 \<and>
            live_consumers sub = 2))"

definition test_round_trip_messages :: "instant \<Rightarrow> instant \<Rightarrow> bool" where
  "test_round_trip_messages lo now =
     (let state = default_state\<lparr>recent_buffer_capacity := 200, recent_messages :=
            [\<lparr>rm_seq = 7, rm_topic = ''projects/p/topics/orders'',
              rm_data = string_bytes (''{'' @ quoted ''id'' @ '':1}''),
              rm_attributes = [(''content-type'', ''application/json'')], rm_original_len = 8,
              rm_truncated = False, rm_seen = now\<rparr>]\<rparr>;
          restored = from_wire lo (to_wire state now) (plus_millis now 20)
      in (case recent_messages restored of
            [message] \<Rightarrow> rm_seq message = 7 \<and> rm_topic message = ''projects/p/topics/orders'' \<and>
              rm_data message = string_bytes (''{'' @ quoted ''id'' @ '':1}'') \<and>
              rm_attributes message = [(''content-type'', ''application/json'')] \<and>
              rm_original_len message = 8 \<and> \<not> rm_truncated message
          | _ \<Rightarrow> False) \<and> recent_buffer_capacity restored = 200)"

text \<open>The test panics where the clock does not reach back ten seconds.\<close>

definition test_stale_publisher :: "instant \<Rightarrow> instant \<Rightarrow> bool" where
  "test_stale_publisher lo now =
     (case checked_sub lo now PUBLISHER_ACTIVE_WINDOW of None \<Rightarrow> False | Some edge \<Rightarrow>
        (let state = default_state\<lparr>topics := bt_insert ''t'' \<lparr>topic_exists = False, publish_count = 1,
               publishers = bt_insert ''peer'' \<lparr>published = 1, last_seen = edge\<rparr> []\<rparr> []\<rparr>;
             restored = from_wire lo (to_wire state now) now
         in connected_publishers restored now = 1 \<and>
            connected_publishers restored (plus_millis now 1) = 0))"

lemma convert_tests:
  assumes "lo \<le> now - int PUBLISHER_ACTIVE_WINDOW"
  shows "test_round_trip_counts lo now" and "test_round_trip_messages lo now" and "test_stale_publisher lo now"
proof -
  have wf: "bt_wf [e]" for e :: "string \<times> 'v" by (simp add: bt_wf_def)
  have lo: "lo \<le> now" using assms by simp
  have clocks [simp]: "rebuilt lo now later now = later" if "lo \<le> later" for later
    using that by (simp add: rebuilt_def age_to_wire_def age_from_wire_def saturating_duration_since_def as_millis_def
      u64_try_from_or_max_def checked_sub_def from_millis_def)
  show "test_round_trip_counts lo now"
    using lo by (simp add: test_round_trip_counts_def Let_def wire_trip maps_ok_def in_memory_def map_instants_def wf
        state_defs connected_publishers_def plus_millis_def saturating_duration_since_def)
  show "test_round_trip_messages lo now"
    using lo by (simp add: test_round_trip_messages_def Let_def wire_trip maps_ok_def in_memory_def map_instants_def
        state_defs)
  let ?edge = "now - int PUBLISHER_ACTIVE_WINDOW"
  have edge: "rebuilt lo now now ?edge = ?edge"
    using assms by (simp add: rebuilt_def age_to_wire_def age_from_wire_def saturating_duration_since_def as_millis_def
      u64_try_from_or_max_def checked_sub_def from_millis_def PUBLISHER_ACTIVE_WINDOW_def from_secs_def)
  show "test_stale_publisher lo now"
    using assms by (simp add: test_stale_publisher_def checked_sub_def Let_def wire_trip maps_ok_def in_memory_def
        map_instants_def wf edge state_defs connected_publishers_def plus_millis_def saturating_duration_since_def)
      (simp add: PUBLISHER_ACTIVE_WINDOW_def from_millis_def)
qed
subsection \<open>The relay\<close>

text \<open>
  What the JSON, base64 and gzip libraries answer on the inputs of these tests.
\<close>

definition ids_body :: bytes where
  "ids_body = string_bytes (''{'' @ quoted ''ackIds'' @ '':['' @ quoted ''a'' @ '','' @ quoted ''b'' @ '']}'')"

definition no_ids_body :: bytes where
  "no_ids_body = string_bytes (''{'' @ quoted ''ackIds'' @ '':[]}'')"

definition publish_body :: bytes where
  "publish_body = string_bytes (''{'' @ quoted ''messages'' @ '':[{'' @ quoted ''data'' @ '':'' @ quoted ''aGVsbG8gcmVzdA=='' @
     '','' @ quoted ''attributes'' @ '':{'' @ quoted ''src'' @ '':'' @ quoted ''curl'' @ ''}},{'' @ quoted ''attributes'' @
     '':{}},{'' @ quoted ''data'' @ '':'' @ quoted ''aGk='' @ ''}]}'')"

definition no_messages_body :: bytes where
  "no_messages_body = string_bytes (''{'' @ quoted ''messages'' @ '':[]}'')"

definition test_env :: "(bytes, string) rest_env" where
  "test_env = \<lparr>collect_limited = (\<lambda>limit body. Some body), parse_uri = Some, send_upstream = (\<lambda>_. None),
     parse_json = map_of
       [(ids_body, JObject [(''ackIds'', JArray [JString ''a'', JString ''b''])]),
        (no_ids_body, JObject [(''ackIds'', JArray [])]),
        (string_bytes ''{}'', JObject []),
        (publish_body, JObject [(''messages'', JArray
          [JObject [(''attributes'', JObject [(''src'', JString ''curl'')]), (''data'', JString ''aGVsbG8gcmVzdA=='')],
           JObject [(''attributes'', JObject [])],
           JObject [(''data'', JString ''aGk='')]])]),
        (no_messages_body, JObject [(''messages'', JArray [])])],
     json_text = (\<lambda>_. []),
     gunzip = map_of [([0x1f, 0x8b], string_bytes ''squashed'')],
     base64_standard = map_of [(''fn5+Pw=='', string_bytes ''~~~?''), (''fn5+Pw'', string_bytes ''~~~?''),
       (''aGVsbG8gcmVzdA=='', string_bytes ''hello rest''), (''aGk='', string_bytes ''hi'')],
     base64_url_safe = map_of [(''fn5-Pw=='', string_bytes ''~~~?'')],
     canonical_reason = (\<lambda>_. None)\<rparr>"

definition test_rest_path :: bool where
  "test_rest_path \<longleftrightarrow>
     resource_and_verb ''/v1/projects/p/topics/t:publish'' = Some (''projects/p/topics/t'', ''publish'') \<and>
     resource_and_verb ''/v1/projects/p/subscriptions/s:acknowledge'' =
       Some (''projects/p/subscriptions/s'', ''acknowledge'') \<and>
     resource_and_verb ''/v1/projects/p/topics/t'' = None \<and>
     resource_and_verb [CHR ''/'', CHR 0xE5, CHR 0x81, CHR 0xA5, CHR 0xE5, CHR 0xBA, CHR 0xB7] = None"

definition test_base64 :: bool where
  "test_base64 \<longleftrightarrow>
     decode_base64 test_env ''fn5+Pw=='' = string_bytes ''~~~?'' \<and>
     decode_base64 test_env ''fn5-Pw=='' = string_bytes ''~~~?'' \<and>
     decode_base64 test_env ''fn5+Pw'' = string_bytes ''~~~?'' \<and>
     decode_base64 test_env ''not base64!'' = []"

definition test_array_fields :: bool where
  "test_array_fields \<longleftrightarrow>
     json_array_len test_env ids_body ''ackIds'' = 2 \<and> json_array_len test_env no_ids_body ''ackIds'' = 0 \<and>
     json_array_len test_env (string_bytes ''{}'') ''ackIds'' = 0 \<and>
     json_array_len test_env (string_bytes ''not json'') ''ackIds'' = 0"

definition test_publish_body :: bool where
  "test_publish_body \<longleftrightarrow>
     (case captured_messages test_env \<lparr>rp_upstream = ''localhost:8085'', rp_payload_cap = 4\<rparr> publish_body of
        [m0, m1, m2] \<Rightarrow> pm_data m0 = string_bytes ''hell'' \<and> pm_original_len m0 = 10 \<and> pm_truncated m0 \<and>
          pm_attributes m0 = [(''src'', ''curl'')] \<and> pm_original_len m1 = 0 \<and> \<not> pm_truncated m2 \<and>
          pm_data m2 = string_bytes ''hi''
      | _ \<Rightarrow> False)"

definition test_other_body :: bool where
  "test_other_body \<longleftrightarrow>
     captured_messages test_env \<lparr>rp_upstream = ''localhost:8085'', rp_payload_cap = 64\<rparr> (string_bytes ''<html>'') = [] \<and>
     captured_messages test_env \<lparr>rp_upstream = ''localhost:8085'', rp_payload_cap = 64\<rparr> no_messages_body = []"

definition test_gunzip :: bool where
  "test_gunzip \<longleftrightarrow>
     decoded test_env [] (string_bytes ''plain'') = Some (string_bytes ''plain'') \<and>
     (let headers = header_insert ''content-encoding'' ''gzip'' []
      in decoded test_env headers [0x1f, 0x8b] = Some (string_bytes ''squashed'') \<and>
         decoded test_env (header_insert ''content-encoding'' ''br'' headers) (string_bytes ''whatever'') = None)"

definition test_relayed_headers :: bool where
  "test_relayed_headers \<longleftrightarrow>
     (let headers = header_insert ''x-goog-request-params'' ''topic=x'' (header_insert ''authorization'' ''Bearer t''
            (header_insert ''connection'' ''keep-alive'' (header_insert ''host'' ''proxy:8681'' [])));
          upstream = relayed_headers headers True
      in header_get upstream ''connection'' = None \<and> header_get upstream ''host'' = None \<and>
         header_get upstream ''authorization'' = Some ''Bearer t'' \<and>
         header_get upstream ''x-goog-request-params'' = Some ''topic=x'' \<and>
         header_get (relayed_headers headers False) ''host'' \<noteq> None)"

lemma unat_of_char: "unat (of_nat (of_char (c :: char)) :: u8) = of_char c"
proof -
  have "of_char c < (256 :: nat)" by simp
  then show ?thesis by (simp only: unsigned_of_nat take_bit_eq_mod) simp
qed

lemma string_bytes_inject: "string_bytes s = string_bytes t \<longleftrightarrow> s = t"
proof -
  have "inj (\<lambda>c :: char. of_nat (of_char c) :: u8)"
    by (rule injI) (metis of_char_eq_iff unat_of_char)
  then show ?thesis by (simp add: string_bytes_def inj_map_eq_map)
qed

lemmas bodies = ids_body_def no_ids_body_def publish_body_def no_messages_body_def string_bytes_inject quoted_def

lemma rest_tests: "test_rest_path" "test_base64" "test_array_fields" "test_publish_body" "test_other_body" "test_gunzip"
  "test_relayed_headers"
proof -
  show test_rest_path by code_simp
  show test_base64 by (simp add: test_base64_def decode_base64_def test_env_def)
  show test_array_fields
    by (simp add: test_array_fields_def json_array_len_def test_env_def bodies)
  show test_publish_body
    by (simp add: test_publish_body_def captured_messages_def rest_capture_def decode_base64_def test_env_def bodies
        List.map_filter_simps)
      (simp add: string_bytes_def)
  show test_other_body
    by (simp add: test_other_body_def captured_messages_def test_env_def bodies)
  show test_gunzip
    by (simp add: test_gunzip_def decoded_def test_env_def header_get_def header_insert_def header_remove_def)
  show test_relayed_headers by code_simp
qed
subsection \<open>Payloads\<close>

definition scalars :: "string \<Rightarrow> scalar list" where
  "scalars s = map of_char s"

text \<open>The pretty-printer on the two JSON payloads of the tests.\<close>

definition acme_body :: bytes where
  "acme_body = string_bytes (''{'' @ quoted ''id'' @ '':1,'' @ quoted ''name'' @ '':'' @ quoted ''acme'' @ ''}'')"

definition id_body :: bytes where
  "id_body = string_bytes (''{'' @ quoted ''id'' @ '':42}'')"

definition test_pretty :: "bytes \<Rightarrow> scalar list option" where
  "test_pretty = map_of
     [(acme_body, scalars (''{'' @ [CHR 0x0A] @ ''  '' @ quoted ''id'' @ '': 1,'' @ [CHR 0x0A] @ ''  '' @
        quoted ''name'' @ '': '' @ quoted ''acme'' @ [CHR 0x0A] @ ''}'')),
      (id_body, scalars (''{'' @ [CHR 0x0A] @ ''  '' @ quoted ''id'' @ '': 42'' @ [CHR 0x0A] @ ''}''))]"

definition test_json_rendered :: bool where
  "test_json_rendered \<longleftrightarrow>
     (let rendered = render_body test_pretty acme_body;
          joined = concat (map line_text (rendered_lines rendered))
      in rendered_label rendered = ''json'' \<and> length (rendered_lines rendered) > 1 \<and>
         contains_str joined (quoted ''name'') \<and> contains_str joined ''acme'')"

definition test_plain_text :: bool where
  "test_plain_text \<longleftrightarrow>
     (let rendered = render_body test_pretty (string_bytes (''hello world'' @ [CHR 0x0A] @ ''second line''))
      in rendered_label rendered = ''text'' \<and> length (rendered_lines rendered) = 2 \<and>
         line_text (rendered_lines rendered ! 1) = ''second line'')"

definition test_binary_hex :: bool where
  "test_binary_hex \<longleftrightarrow>
     (let rendered = render_body test_pretty [0x00, 0xff, 0x10, 0x41];
          shown = line_text (rendered_lines rendered ! 0)
      in rendered_label rendered = ''hex'' \<and> take 8 shown = ''00000000'' \<and>
         contains_str shown ''ff'' \<and> contains_str shown ''|'')"

definition test_empty_payload :: bool where
  "test_empty_payload \<longleftrightarrow>
     (let rendered = render_body test_pretty []
      in rendered_label rendered = ''empty'' \<and> length (rendered_lines rendered) = 1)"



lemma ascii_text: "\<forall>c \<in> set s. of_char c < (128 :: nat) \<Longrightarrow> utf8_string (scalars s) = s"
  by (induction s) (auto simp: scalars_def utf8_string_def utf8_bytes_def)

lemma json_rendered: test_json_rendered
proof -
  let ?lines = "[''{'', ''  '' @ quoted ''id'' @ '': 1,'', ''  '' @ quoted ''name'' @ '': '' @ quoted ''acme'', ''}'']"
  have "test_pretty acme_body = Some (scalars (''{'' @ [CHR 0x0A] @ ''  '' @ quoted ''id'' @ '': 1,'' @ [CHR 0x0A] @ ''  '' @
      quoted ''name'' @ '': '' @ quoted ''acme'' @ [CHR 0x0A] @ ''}''))" (is "_ = Some ?pretty")
    by (simp add: test_pretty_def)
  moreover have split: "split_on (ascii (CHR 0x0A)) ?pretty = map scalars ?lines" by code_simp
  moreover have "acme_body \<noteq> []" by (simp add: acme_body_def string_bytes_def quoted_def)
  ultimately have r: "render_body test_pretty acme_body =
      \<lparr>rendered_label = ''json'', rendered_lines = map (highlight_json_line \<circ> scalars) ?lines\<rparr>"
    by (simp add: render_body_def as_json_def)
  have "\<forall>s \<in> set ?lines. \<forall>c \<in> set s. of_char c < (128 :: nat)" by (simp add: quoted_def)
  then have "map (\<lambda>s. line_text (highlight_json_line (scalars s))) ?lines = ?lines"
    by (simp only: highlight_text) (simp add: ascii_text)
  then have "concat (map line_text (rendered_lines (render_body test_pretty acme_body))) = concat ?lines"
    unfolding r by (simp add: comp_def)
  moreover have "contains_str (concat ?lines) (quoted ''name'')" "contains_str (concat ?lines) ''acme''" by code_simp+
  ultimately show ?thesis unfolding test_json_rendered_def Let_def by (simp add: r)
qed
lemma plain_text: test_plain_text by code_simp
lemma binary_hex: test_binary_hex by code_simp
lemma empty_payload: test_empty_payload by code_simp
subsection \<open>The interface\<close>

text \<open>
  The text of a screen, row by row; the rows of the tree are the tree widget's and are left out, as is the
  clipping of a row at the edge of its panel.
\<close>

definition paragraph_rows :: "Paragraph \<Rightarrow> string list" where
  "paragraph_rows p = (case par_block p of None \<Rightarrow> [] | Some (title, border) \<Rightarrow> [snd title]) @ map line_text (par_lines p)"

fun tree_rows :: "'i tree_panel \<Rightarrow> string list" where
  "tree_rows (TreePlaceholder p) = paragraph_rows p"
| "tree_rows (TreeShown items) = []"

fun messages_rows :: "messages_panel \<Rightarrow> string list" where
  "messages_rows (DetailPanel title ls scroll) = title # map line_text ls"
| "messages_rows (NoMessages title l) = [title, line_text l]"
| "messages_rows (MessageList title ls index highlighted) = title # map line_text ls"

definition screen_shows :: "'i screen option \<Rightarrow> string \<Rightarrow> bool" where
  "screen_shows screen pat =
     (case screen of None \<Rightarrow> False
      | Some sc \<Rightarrow> list_ex (\<lambda>row. contains_str row pat)
          (paragraph_rows (sc_title sc) @ paragraph_rows (sc_connection sc) @ [snd (dt_title (sc_tree sc))] @
           tree_rows (dt_panel (sc_tree sc)) @ paragraph_rows (sc_statistics sc) @ messages_rows (sc_messages sc) @
           paragraph_rows (sc_status sc)))"

text \<open>The panel of the statistics is 32 columns wide on any terminal of at least 72.\<close>

definition test_ui :: "(nat, tree_item) ui_env" where
  "test_ui = sample_ui\<lparr>pretty_json := test_pretty\<rparr>"

definition draw :: "instant \<Rightarrow> u16 \<Rightarrow> AppState \<Rightarrow> bool \<Rightarrow> nat App \<Rightarrow> tree_item screen option" where
  "draw now rows state connected app = render test_ui now rows 32 state connected app"

definition press :: "instant \<Rightarrow> key_code \<Rightarrow> AppState \<Rightarrow> nat App \<Rightarrow> nat App" where
  "press now code state app = handle_event test_ui now (Key Press False code) state app"

definition test_body_height :: bool where
  "test_body_height \<longleftrightarrow>
     body_height 60 0 = BODY_MIN_HEIGHT \<and> body_height 60 12 = 14 \<and>
     40 - 2 - body_height 40 100 = MESSAGES_MIN_HEIGHT"

definition test_statistics_justified :: "instant \<Rightarrow> bool" where
  "test_statistics_justified now =
     (let state = apply_obs (Publish ''projects/p/topics/orders'' (localhost 5000) [test_message (string_bytes ''hi'')]) now
            (default_state\<lparr>recent_buffer_capacity := 200\<rparr>);
          screen = draw now 28 state True (app_new test_ui ''h'')
      in screen_shows screen ''199 / 200'' \<and>
         \<not> screen_shows screen ''Topics: 1'' \<and> \<not> screen_shows screen ''Topics 1'')"

definition test_tab_and_enter :: "instant \<Rightarrow> bool" where
  "test_tab_and_enter now =
     (let state = apply_obs (Publish ''projects/p/topics/orders'' (localhost 5000) [test_message id_body]) now default_state;
          app = press now Enter state (press now Tab state (app_new test_ui ''h''));
          screen = draw now 28 state True app
      in screen_shows screen ''Message #0'' \<and> screen_shows screen ''json'' \<and> screen_shows screen (quoted ''id'') \<and>
         screen_shows (draw now 28 state True (press now Tab state app)) ''Messages (1)'')"

definition test_placeholder :: "instant \<Rightarrow> bool" where
  "test_placeholder now =
     screen_shows (draw now 16 default_state True (app_new test_ui ''h'')) ''No topics with messages yet''"

definition test_title_bar :: "instant \<Rightarrow> bool" where
  "test_title_bar now =
     (let connecting = draw now 16 default_state False (app_new test_ui ''h'');
          connected = draw now 16 default_state True (app_new test_ui ''h'')
      in screen_shows connecting ''connecting'' \<and> screen_shows connected ''connected'' \<and>
         \<not> screen_shows connected ''connecting'')"

lemma render_parts:
  "render env now rows width state connected app = Some sc \<Longrightarrow>
     sc_title sc = title_bar (app_header app) \<and> sc_connection sc = connection_status connected \<and>
     sc_statistics sc = statistics state now width \<and> sc_messages sc = render_messages env app state now \<and>
     sc_status sc = status_bar (hints app) \<and> snd (dt_title (sc_tree sc)) = '' Topics ('' @ show_nat (topic_count state) @ '') '' \<and>
     (dt_panel (sc_tree sc) = TreePlaceholder empty_placeholder \<or> (\<exists>items. dt_panel (sc_tree sc) = TreeShown items))"
  by (auto simp: render_def render_tree_def Let_def split: option.splits if_splits)

lemma draw_total:
  assumes "maps_ok state" and "\<forall>e \<in> set (topics state). CHR 0x01 \<notin> set (fst e)"
  shows "\<exists>sc. draw now rows state connected app = Some sc"
  unfolding draw_def
proof (rule render_total)
  show "tree_widget (tree_item test_ui) (tree_leaf test_ui) tree_item_id"
    using widget.tree_widget_axioms by (simp add: test_ui_def sample_ui_def)
qed (use assms in \<open>simp_all add: test_ui_def sample_ui_def\<close>)

lemma body_heights: test_body_height 
  by (simp add: test_body_height_def body_height_def BODY_MIN_HEIGHT_def MESSAGES_MIN_HEIGHT_def MESSAGES_MIN_ROWS_def
    saturating_sub_def saturating_add_def)

text \<open>The rows of a frame, with what stands in the tree's panel left open.\<close>

definition rows_above :: "string \<Rightarrow> bool \<Rightarrow> string \<Rightarrow> string list" where
  "rows_above header connected n =
     map line_text (par_lines (title_bar header)) @ map line_text (par_lines (connection_status connected)) @
     ['' Topics ('' @ n @ '') '']"

definition rows_below :: "string list \<Rightarrow> string list \<Rightarrow> (string \<times> string) list \<Rightarrow> string list" where
  "rows_below stats messages hs = '' Statistics '' # stats @ messages @ map line_text (par_lines (status_bar hs))"

lemma draw_rows:
  assumes "maps_ok state" and "\<forall>e \<in> set (topics state). CHR 0x01 \<notin> set (fst e)"
  obtains tree where "tree = [] \<or> tree = map line_text (par_lines empty_placeholder)"
    "\<And>pat. screen_shows (draw now rows state connected app) pat = list_ex (\<lambda>row. contains_str row pat)
      (rows_above (app_header app) connected (show_nat (topic_count state)) @ tree @
       rows_below (map line_text (par_lines (statistics state now 32))) (messages_rows (render_messages test_ui app state now))
         (hints app))"
proof -
  obtain sc where sc: "draw now rows state connected app = Some sc"
    using draw_total [OF assms] by blast
  then have parts: "sc_title sc = title_bar (app_header app)" "sc_connection sc = connection_status connected"
    "sc_statistics sc = statistics state now 32" "sc_messages sc = render_messages test_ui app state now"
    "sc_status sc = status_bar (hints app)"
    "snd (dt_title (sc_tree sc)) = '' Topics ('' @ show_nat (topic_count state) @ '') ''"
    and panel: "dt_panel (sc_tree sc) = TreePlaceholder empty_placeholder \<or> (\<exists>items. dt_panel (sc_tree sc) = TreeShown items)"
    using render_parts [of test_ui now rows 32 state connected app sc] by (simp_all add: draw_def)
  have blocks: "par_block (title_bar h) = None" "par_block (connection_status c) = None"
    "par_block (statistics s t w) = Some ((theme_title, '' Statistics ''), theme_border)"
    "par_block (status_bar hs) = None" "par_block empty_placeholder = None" for h c s t w hs
    by (simp_all add: title_bar_def connection_status_def Let_def statistics_def status_bar_def empty_placeholder_def
        split: prod.split)
  show ?thesis
    by (rule that [of "tree_rows (dt_panel (sc_tree sc))"])
      (use panel in \<open>auto simp: screen_shows_def sc parts paragraph_rows_def blocks rows_above_def rows_below_def\<close>)
qed

lemma list_rows: "message_view app = ListView \<Longrightarrow> recent_messages state \<noteq> [] \<Longrightarrow>
    messages_rows (render_messages env app state now) =
      ('' Messages ('' @ show_nat (length (recent_messages state)) @ '') '') #
      map (\<lambda>m. line_text (message_row m now)) (recent_messages state)"
  by (simp add: render_messages_def Let_def)

lemma detail_rows: "message_view app = DetailView m scroll \<Longrightarrow>
    messages_rows (render_messages env app state now) =
      ('' Message #'' @ show_nat (unat (rm_seq m)) @ '' '') # map line_text (detail_lines (pretty_json env) m now)"
  by (simp add: render_messages_def Let_def)

lemma no_row: "list_all (\<lambda>row. \<not> P row) (us @ ts @ vs) \<Longrightarrow> tree = [] \<or> tree = ts \<Longrightarrow>
    \<not> list_ex P (us @ tree @ vs)"
  by (auto simp: list_all_iff list_ex_iff)

lemma shown_in_messages:
  assumes "maps_ok state" and "\<forall>e \<in> set (topics state). CHR 0x01 \<notin> set (fst e)"
    and "row \<in> set (messages_rows (render_messages test_ui app state now))" and "contains_str row pat"
  shows "screen_shows (draw now rows state connected app) pat"
  by (rule draw_rows [OF assms(1,2), of now rows connected app]) (use assms(3,4) in \<open>auto simp: list_ex_iff rows_below_def\<close>)

lemma maps_ok_default: "maps_ok default_state"
  by (simp add: maps_ok_def state_defs)

lemmas row_defs = title_bar_def connection_status_def status_bar_def hints_def app_new_def empty_placeholder_def arrow_def

lemma default_statistics: "map line_text (par_lines (statistics default_state now 32)) =
  [''Topics'' @ spaces 23 @ ''0'', ''Publishers (live)'' @ spaces 12 @ ''0'', ''Consumers (live)'' @ spaces 13 @ ''0'',
   ''Messages published'' @ spaces 11 @ ''0'', ''Messages consumed'' @ spaces 12 @ ''0'', ''Buffer free'' @ spaces 18 @ ''0'']"
  by (simp add: statistics_lines stat_line_def topic_count_def connected_publishers_def connected_consumers_def buffer_free_def
    state_defs saturating_sub_def show_radix.simps digit_chars chars_count_def)

lemma space_runs:
  "spaces 11 = ''           ''" "spaces 12 = ''            ''" "spaces 13 = ''             ''"
  "spaces 18 = ''                  ''" "spaces 10 = ''          ''" "spaces 23 = ''                       ''"
  by (simp_all add: spaces_def numeral_eq_Suc)

lemma default_drawable: "maps_ok default_state" "\<forall>e \<in> set (topics default_state). CHR 0x01 \<notin> set (fst e)"
  by (simp_all add: maps_ok_default) (simp add: state_defs)

lemma default_panels: "topic_count default_state = 0"
  "render_messages test_ui (app_new test_ui ''h'') default_state now =
     NoMessages '' Messages (0) '' [(theme_label, ''Published messages appear here as they arrive.'')]"
  by (simp add: topic_count_def state_defs) (simp add: render_messages_def app_new_def state_defs show_radix.simps digit_chars)

lemma placeholder_shown: "test_placeholder now"
proof -
  have ok: "maps_ok default_state" "\<forall>e \<in> set (topics default_state). CHR 0x01 \<notin> set (fst e)"
    by (simp_all add: maps_ok_default) (simp add: state_defs)
  obtain sc where sc: "draw now 16 default_state True (app_new test_ui ''h'') = Some sc"
    using draw_total [OF ok] by blast
  have "dt_panel (sc_tree sc) = TreePlaceholder empty_placeholder"
    using sc by (auto simp: draw_def render_def render_tree_def build_def build_trie_def state_defs default_node_def Let_def split: option.splits if_splits)
  then show ?thesis unfolding test_placeholder_def
    by (simp add: screen_shows_def sc paragraph_rows_def empty_placeholder_def)
qed

lemma tree_hints: "hints (app_new env header) =
    [(arrow 0x91 @ arrow 0x93, ''Move''), (arrow 0x90 @ arrow 0x92, ''Collapse/Expand''), (''Enter'', ''Toggle''),
     (''Tab'', ''Messages''), (''q'', ''Quit'')]"
  by (simp add: hints_def app_new_def)

lemma app_new_header: "app_header (app_new env header) = header"
  by (simp add: app_new_def)

lemma show_zero: "show_nat 0 = ''0''"
  by (simp add: show_radix.simps digit_chars)

definition idle_below :: "string list" where
  "idle_below = rows_below
     [''Topics'' @ spaces 23 @ ''0'', ''Publishers (live)'' @ spaces 12 @ ''0'', ''Consumers (live)'' @ spaces 13 @ ''0'',
      ''Messages published'' @ spaces 11 @ ''0'', ''Messages consumed'' @ spaces 12 @ ''0'', ''Buffer free'' @ spaces 18 @ ''0'']
     ['' Messages (0) '', ''Published messages appear here as they arrive.'']
     [(arrow 0x91 @ arrow 0x93, ''Move''), (arrow 0x90 @ arrow 0x92, ''Collapse/Expand''), (''Enter'', ''Toggle''),
      (''Tab'', ''Messages''), (''q'', ''Quit'')]"

lemma idle_rows:
  obtains tree where "tree = [] \<or> tree = map line_text (par_lines empty_placeholder)"
    "\<And>pat. screen_shows (draw now rows default_state connected (app_new test_ui ''h'')) pat =
      list_ex (\<lambda>row. contains_str row pat) (rows_above ''h'' connected ''0'' @ tree @ idle_below)"
  by (rule draw_rows [OF default_drawable, of now rows connected "app_new test_ui ''h''"])
    (auto simp: default_statistics default_panels tree_hints app_new_header show_zero idle_below_def line_text_def)

lemma connection_rows:
  "list_ex (\<lambda>row. contains_str row ''connecting'') (rows_above ''h'' False ''0'')"
  "list_ex (\<lambda>row. contains_str row ''connected'') (rows_above ''h'' True ''0'')"
  "list_all (\<lambda>row. \<not> contains_str row ''connecting'')
     (rows_above ''h'' True ''0'' @ map line_text (par_lines empty_placeholder) @ idle_below)"
  by code_simp+

lemma title_bar_state: "test_title_bar now"
proof -
  have "screen_shows (draw now 16 default_state False (app_new test_ui ''h'')) ''connecting''"
    by (rule idle_rows [of now 16 False]) (simp add: connection_rows)
  moreover have "screen_shows (draw now 16 default_state True (app_new test_ui ''h'')) ''connected''"
    by (rule idle_rows [of now 16 True]) (simp add: connection_rows)
  moreover have "\<not> screen_shows (draw now 16 default_state True (app_new test_ui ''h'')) ''connecting''"
    by (rule idle_rows [of now 16 True]) (simp only: no_row [OF connection_rows(3)] not_False_eq_True)
  ultimately show ?thesis by (simp add: test_title_bar_def)
qed

definition orders_state :: "nat \<Rightarrow> instant \<Rightarrow> bytes \<Rightarrow> AppState" where
  "orders_state cap now data = default_state\<lparr>
     topics := [(''projects/p/topics/orders'', \<lparr>topic_exists = False, publish_count = 1,
       publishers = [(''127.0.0.1:5000'', \<lparr>published = 1, last_seen = now\<rparr>)]\<rparr>)],
     recent_messages := [\<lparr>rm_seq = 0, rm_topic = ''projects/p/topics/orders'', rm_data = data, rm_attributes = [],
       rm_original_len = length data, rm_truncated = False, rm_seen = now\<rparr>],
     recent_buffer_capacity := cap, next_seq := 1\<rparr>"

lemma orders_published:
  "apply_obs (Publish ''projects/p/topics/orders'' (localhost 5000) [test_message data]) now (default_state\<lparr>recent_buffer_capacity := cap\<rparr>) =
     orders_state cap now data"
  "apply_obs (Publish ''projects/p/topics/orders'' (localhost 5000) [test_message data]) now default_state = orders_state 0 now data"
  by (simp_all add: apply_publish_eq orders_state_def test_message_def bt_upsert_def record_publish_def peer_key_def localhost_def
      show_ipv4_def show_radix.simps digit_chars state_defs)

lemma orders_drawable: "maps_ok (orders_state cap now data)"
  "\<forall>e \<in> set (topics (orders_state cap now data)). CHR 0x01 \<notin> set (fst e)"
  by (auto simp: maps_ok_def orders_state_def state_defs bt_wf_def)

lemma orders_statistics: "map line_text (par_lines (statistics (orders_state 200 now data) now 32)) =
  [''Topics'' @ spaces 23 @ ''0'', ''Publishers (live)'' @ spaces 12 @ ''1'', ''Consumers (live)'' @ spaces 13 @ ''0'',
   ''Messages published'' @ spaces 11 @ ''1'', ''Messages consumed'' @ spaces 12 @ ''0'', ''Buffer free'' @ spaces 10 @ ''199 / 200'']"
  by (simp add: statistics_lines stat_line_def topic_count_def connected_publishers_def connected_consumers_def buffer_free_def
    orders_state_def state_defs saturating_sub_def show_radix.simps digit_chars chars_count_def saturating_duration_since_def)

text \<open>Only the row of the topics mentions them, and there the value stands at the right.\<close>

definition orders_below :: "string list" where
  "orders_below = rows_below
     [''Topics'' @ spaces 23 @ ''0'', ''Publishers (live)'' @ spaces 12 @ ''1'', ''Consumers (live)'' @ spaces 13 @ ''0'',
      ''Messages published'' @ spaces 11 @ ''1'', ''Messages consumed'' @ spaces 12 @ ''0'', ''Buffer free'' @ spaces 10 @ ''199 / 200'']
     ['' Messages (1) '', ''projects/p/topics/orders  2B  now'']
     [(arrow 0x91 @ arrow 0x93, ''Move''), (arrow 0x90 @ arrow 0x92, ''Collapse/Expand''), (''Enter'', ''Toggle''),
      (''Tab'', ''Messages''), (''q'', ''Quit'')]"

lemma not_adjacent:
  "list_all (\<lambda>row. \<not> contains_str row ''Topics: 1'')
     (rows_above ''h'' True ''0'' @ map line_text (par_lines empty_placeholder) @ orders_below)"
  "list_all (\<lambda>row. \<not> contains_str row ''Topics 1'')
     (rows_above ''h'' True ''0'' @ map line_text (par_lines empty_placeholder) @ orders_below)"
  "list_ex (\<lambda>row. contains_str row ''199 / 200'') orders_below"
  by code_simp+

lemma statistics_justified: "test_statistics_justified now"
proof -
  let ?state = "orders_state 200 now (string_bytes ''hi'')"
  have messages: "messages_rows (render_messages test_ui (app_new test_ui ''h'') ?state now) =
      ['' Messages (1) '', ''projects/p/topics/orders  2B  now'']"
    by (simp add: render_messages_def app_new_def orders_state_def message_row_def format_size_def format_age_def as_secs_def
        saturating_duration_since_def show_radix.simps digit_chars string_bytes_def)
  have count: "topic_count ?state = 0" by (simp add: topic_count_def orders_state_def)
  have ok: "maps_ok ?state" "\<forall>e \<in> set (topics ?state). CHR 0x01 \<notin> set (fst e)" by (rule orders_drawable)+
  obtain tree where tree: "tree = [] \<or> tree = map line_text (par_lines empty_placeholder)"
    and shows_at: "\<And>pat. screen_shows (draw now 28 ?state True (app_new test_ui ''h'')) pat =
      list_ex (\<lambda>row. contains_str row pat) (rows_above ''h'' True ''0'' @ tree @ orders_below)"
    by (rule draw_rows [OF ok, of now 28 True "app_new test_ui ''h''"])
      (auto simp: orders_statistics messages count tree_hints app_new_header show_zero orders_below_def)
  have "screen_shows (draw now 28 ?state True (app_new test_ui ''h'')) ''199 / 200''"
    using not_adjacent(3) by (simp add: shows_at)
  moreover note no_row [OF not_adjacent(1) tree] no_row [OF not_adjacent(2) tree]
  ultimately show ?thesis unfolding test_statistics_justified_def orders_published Let_def shows_at by blast
qed

lemma tab_and_enter: "test_tab_and_enter now"
proof -
  let ?state = "orders_state 0 now id_body"
  let ?message = "hd (recent_messages ?state)"
  let ?app = "press now Enter ?state (press now Tab ?state (app_new test_ui ''h''))"
  have app: "message_view ?app = DetailView ?message 0" "focus ?app = MessagesFocus"
    by (simp_all add: press_def app_new_def toggle_focus_def handle_messages_key_def open_selected_def orders_state_def
        back_of_def index_of_seq_def get_at_def)
  have listed: "message_view (press now Tab ?state ?app) = ListView"
    using app by (simp add: press_def toggle_focus_def)
  have body: "render_body test_pretty id_body = \<lparr>rendered_label = ''json'', rendered_lines =
      map (highlight_json_line \<circ> scalars) [''{'', ''  '' @ quoted ''id'' @ '': 42'', ''}'']\<rparr>"
  proof -
    have "test_pretty id_body = Some (scalars (''{'' @ [CHR 0x0A] @ ''  '' @ quoted ''id'' @ '': 42'' @ [CHR 0x0A] @ ''}''))" (is "_ = Some ?p")
      by (simp add: test_pretty_def id_body_def acme_body_def string_bytes_inject quoted_def)
    moreover have "split_on (ascii (CHR 0x0A)) ?p = map scalars [''{'', ''  '' @ quoted ''id'' @ '': 42'', ''}'']" by code_simp
    moreover have "id_body \<noteq> []" by (simp add: id_body_def string_bytes_def)
    ultimately show ?thesis by (simp add: render_body_def as_json_def)
  qed
  have detail: "messages_rows (render_messages test_ui ?app ?state now) =
      '' Message #0 '' # map line_text (detail_lines test_pretty ?message now)"
    unfolding detail_rows [OF app(1)]
    by (simp add: orders_state_def show_zero) (simp add: test_ui_def)
  have rows: "''Format: json'' \<in> set (map line_text (detail_lines test_pretty ?message now))"
    "''  '' @ quoted ''id'' @ '': 42'' \<in> set (map line_text (detail_lines test_pretty ?message now))"
    by (simp_all add: detail_lines_def orders_state_def body labelled_def highlight_text ascii_text quoted_def)
  have "screen_shows (draw now 28 ?state True ?app) ''Message #0''"
    by (rule shown_in_messages [OF orders_drawable, where row = "'' Message #0 ''"]) (simp_all add: detail)
  moreover have "screen_shows (draw now 28 ?state True ?app) ''json''"
    by (rule shown_in_messages [OF orders_drawable, where row = "''Format: json''"]) (use rows in \<open>simp_all add: detail\<close>)
  moreover have "screen_shows (draw now 28 ?state True ?app) (quoted ''id'')"
    by (rule shown_in_messages [OF orders_drawable, where row = "''  '' @ quoted ''id'' @ '': 42''"])
      (use rows in \<open>simp_all add: detail quoted_def\<close>)
  moreover have "screen_shows (draw now 28 ?state True (press now Tab ?state ?app)) ''Messages (1)''"
    by (rule shown_in_messages [OF orders_drawable, where row = "'' Messages (1) ''"])
      (subst list_rows [OF listed], simp_all add: orders_state_def show_radix.simps digit_chars)
  ultimately show ?thesis unfolding test_tab_and_enter_def orders_published Let_def by blast
qed
subsection \<open>All of them\<close>

definition unit_tests :: "instant \<Rightarrow> instant \<Rightarrow> bool" where
  "unit_tests lo now \<longleftrightarrow>
     test_publish_accumulates now \<and> test_recent_messages now \<and> test_trim_recent now \<and> test_ack_counts now \<and>
     test_live_consumers now \<and> test_admin_snapshot now \<and>
     test_round_trip_counts lo now \<and> test_round_trip_messages lo now \<and> test_stale_publisher lo now \<and>
     test_rest_path \<and> test_base64 \<and> test_array_fields \<and> test_publish_body \<and> test_other_body \<and> test_gunzip \<and>
     test_relayed_headers \<and> test_json_rendered \<and> test_plain_text \<and> test_binary_hex \<and> test_empty_payload \<and>
     test_body_height \<and> test_statistics_justified now \<and> test_tab_and_enter now \<and> test_placeholder now \<and>
     test_title_bar now"



end
