(* ===== verification/Demo.thy ===== *)
theory Demo
  imports Loadgen
begin

text \<open>
  The demo as a whole: what the generator (\<^verbatim>\<open>src/loadgen.rs\<close>) publishes through the proxied service
  (\<^verbatim>\<open>src/proxy/publisher.rs\<close>) and what the monitor's state (\<^verbatim>\<open>src/observe/state.rs\<close>) makes of it.
\<close>

text \<open>The calls of the first \<open>n\<close> rounds, \<open>peer k\<close> being the address of the \<open>k\<close>-th publisher connection.\<close>

definition demo_calls :: "(nat \<Rightarrow> socket_addr option) \<Rightarrow> string \<Rightarrow> nat \<Rightarrow> PublishRequest grpc_request list" where
  "demo_calls peer project n =
     map (\<lambda>(slot, request). \<lparr>rq_message = request, rq_metadata = [], rq_remote_addr = peer slot\<rparr>)
       (publish_loop project PUBLISHERS n)"

definition demo_observations ::
  "ProxyPublisher \<Rightarrow> ((string, string) mapping \<Rightarrow> (string \<times> string) list) \<Rightarrow> (PublishRequest, 'e, 'r) upstream \<Rightarrow>
   (nat \<Rightarrow> socket_addr option) \<Rightarrow> string \<Rightarrow> nat \<Rightarrow> observation list" where
  "demo_observations self iter up peer project n =
     concat (map (\<lambda>call. snd (publish self iter up call)) (demo_calls peer project n))"

text \<open>How many messages an observation publishes to a topic, and how many of them under a peer key.\<close>

fun published_to :: "string \<Rightarrow> observation \<Rightarrow> nat" where
  "published_to n (Publish topic peer messages) = (if topic = n then length messages else 0)"
| "published_to n _ = 0"

fun published_by :: "string \<Rightarrow> string \<Rightarrow> observation \<Rightarrow> nat" where
  "published_by n key (Publish topic peer messages) = (if topic = n \<and> peer_key peer = key then length messages else 0)"
| "published_by n key _ = 0"

lemma totals_published:
  "tot_topic (fold spec_obs obs tot) n = tot_topic tot n + of_nat (sum_list (map (published_to n) obs))"
  "tot_publisher (fold spec_obs obs tot) n key =
     tot_publisher tot n key + of_nat (sum_list (map (published_by n key) obs))"
proof -
  have "tot_topic (spec_obs ob tot) n = tot_topic tot n + of_nat (published_to n ob) \<and>
      tot_publisher (spec_obs ob tot) n key = tot_publisher tot n key + of_nat (published_by n key ob)" for ob tot
    by (cases ob) auto
  then show "tot_topic (fold spec_obs obs tot) n = tot_topic tot n + of_nat (sum_list (map (published_to n) obs))"
    "tot_publisher (fold spec_obs obs tot) n key =
       tot_publisher tot n key + of_nat (sum_list (map (published_by n key) obs))"
    by (induction obs arbitrary: tot) (simp_all add: add.assoc)
qed

lemma figures_published:
  "publish_count (topic_at (fold_obs es (start_state cap)) n) = of_nat (sum_list (map (published_to n) (map fst es)))"
  "publisher_share (topic_at (fold_obs es (start_state cap)) n) key =
     of_nat (sum_list (map (published_by n key) (map fst es)))"
proof -
  have start: "tot_topic (abs_totals (start_state cap)) n = 0" "tot_publisher (abs_totals (start_state cap)) n key = 0"
    by (simp_all add: abs_totals_def topic_at_def start_state_def state_defs publisher_share_def)
  have "abs_totals (fold_obs es (start_state cap)) = fold spec_obs (map fst es) (abs_totals (start_state cap))"
    by (rule fold_obs_totals)
  from arg_cong [OF this, of "\<lambda>t. tot_topic t n"] arg_cong [OF this, of "\<lambda>t. tot_publisher t n key"]
  show "publish_count (topic_at (fold_obs es (start_state cap)) n) = of_nat (sum_list (map (published_to n) (map fst es)))"
    "publisher_share (topic_at (fold_obs es (start_state cap)) n) key =
       of_nat (sum_list (map (published_by n key) (map fst es)))"
    unfolding totals_published start by (simp_all add: abs_totals_def)
qed

subsection \<open>The size of a round\<close>

definition batch_size :: "nat \<Rightarrow> nat \<Rightarrow> nat" where
  "batch_size r i = 1 + (r + i) mod 4"

lemma unat_batch: "unat (1 + (of_nat r + of_nat i) mod 4 :: u64) = batch_size r i"
proof -
  have "unat (of_nat (r + i) :: u64) = (r + i) mod 2 ^ 64"
    by (simp add: unsigned_of_nat take_bit_eq_mod del: of_nat_add)
  then have "unat ((of_nat r + of_nat i :: u64) mod 4) = (r + i) mod 2 ^ 64 mod 4"
    by (simp add: unat_mod)
  also have "\<dots> = (r + i) mod 4" by (rule mod_mod_cancel) simp
  finally have small: "unat ((of_nat r + of_nat i :: u64) mod 4) = (r + i) mod 4" .
  then have "unat (1 + (of_nat r + of_nat i) mod 4 :: u64) = (1 + (r + i) mod 4) mod 2 ^ 64"
    by (simp add: unat_word_ariths)
  also have "\<dots> = 1 + (r + i) mod 4" by simp
  finally show ?thesis by (simp add: batch_size_def)
qed

lemma round_published:
  assumes "\<And>request. \<exists>response. up request = Inr response"
  shows "map (\<lambda>(slot, request). snd (publish self iter up \<lparr>rq_message = request, rq_metadata = [], rq_remote_addr = peer slot\<rparr>))
      (round_requests project k (of_nat r)) =
    map (\<lambda>(i, topic). [Publish (gen_topic_path project topic) (peer (i mod k))
        (map (capture self iter) (map (\<lambda>m. payload_for topic (of_nat r) (of_nat m)) [0..<batch_size r i]))])
      (enumerate 0 TOPICS)"
proof -
  have "snd (publish self iter up call) =
      [Publish (pub_topic (rq_message call)) (rq_remote_addr call) (map (capture self iter) (pub_messages (rq_message call)))]" for call
    using assms [of call] by (auto simp: publish_def Let_def)
  then show ?thesis by (auto simp: round_requests_def unat_batch Let_def)
qed

lemma topic_path_eq: "gen_topic_path project a = gen_topic_path project b \<longleftrightarrow> a = b"
  by (simp add: gen_topic_path_def)

lemma distinct_topics: "distinct TOPICS"
  by (simp add: TOPICS_def)

lemma sum_single:
  assumes "distinct xs" and "i < length xs"
  shows "sum_list (map (\<lambda>(j, x). if x = xs ! i then f j else (0 :: nat)) (enumerate 0 xs)) = f i"
proof -
  have "sum_list (map (\<lambda>(j, x). if x = xs ! i then f j else 0) (enumerate 0 xs)) =
      (\<Sum>j < length xs. if xs ! j = xs ! i then f j else 0)"
    by (simp add: enumerate_eq_zip map_zip_map2 sum_list_sum_nth atLeast0LessThan)
  also have "\<dots> = (\<Sum>j < length xs. if j = i then f j else 0)"
    using assms by (intro sum.cong) (simp_all add: nth_eq_iff_index_eq)
  also have "\<dots> = f i" using assms(2) by simp
  finally show ?thesis .
qed

definition batch_obs where
  "batch_obs self iter peer project r i topic = Publish (gen_topic_path project topic) (peer (i mod PUBLISHERS))
     (map (capture self iter) (map (\<lambda>m. payload_for topic (of_nat r) (of_nat m)) [0..<batch_size r i]))"

lemma concat_map_rounds: "concat (map f (map g (concat (map h rs)))) = concat (map (\<lambda>r. concat (map f (map g (h r)))) rs)"
  by (induction rs) simp_all

lemma demo_rounds:
  assumes "\<And>request. \<exists>response. up request = Inr response"
  shows "demo_observations self iter up peer project n = concat (map (\<lambda>r.
      map (\<lambda>(i, topic). batch_obs self iter peer project r i topic) (enumerate 0 TOPICS)) [0..<n])"
proof -
  have one: "concat (map (\<lambda>call. snd (publish self iter up call))
      (map (\<lambda>(slot, request). \<lparr>rq_message = request, rq_metadata = [], rq_remote_addr = peer slot\<rparr>)
        (round_requests project PUBLISHERS (of_nat r)))) =
    map (\<lambda>(i, topic). batch_obs self iter peer project r i topic) (enumerate 0 TOPICS)" for r
    using arg_cong [OF round_published [OF assms, where self = self and iter = iter and peer = peer
        and project = project and k = PUBLISHERS and r = r], of concat]
    by (simp add: comp_def case_prod_unfold concat_map_singleton batch_obs_def)
  show ?thesis
    unfolding demo_observations_def demo_calls_def publish_loop_def concat_map_rounds one ..
qed

definition demo_total :: "nat \<Rightarrow> nat \<Rightarrow> nat" where
  "demo_total n i = (\<Sum>r < n. batch_size r i)"

lemma sum_rounds:
  assumes "\<And>r. sum_list (map f (g r)) = batch_size r i"
  shows "sum_list (map f (concat (map g [0..<n]))) = demo_total n i"
  by (induction n) (simp_all add: demo_total_def assms)

lemma demo_published:
  assumes "\<And>request. \<exists>response. up request = Inr response" and "i < length TOPICS"
  shows "sum_list (map (published_to (gen_topic_path project (TOPICS ! i)))
      (demo_observations self iter up peer project n)) = demo_total n i"
    and "sum_list (map (published_by (gen_topic_path project (TOPICS ! i)) (peer_key (peer (i mod PUBLISHERS))))
      (demo_observations self iter up peer project n)) = demo_total n i"
proof -
  let ?round = "\<lambda>r. map (\<lambda>(j, topic). batch_obs self iter peer project r j topic) (enumerate 0 TOPICS)"
  let ?n = "gen_topic_path project (TOPICS ! i)" and ?key = "peer_key (peer (i mod PUBLISHERS))"
  have to_obs: "published_to ?n (batch_obs self iter peer project r j topic) = (if topic = TOPICS ! i then batch_size r j else 0)" for r j topic
    by (simp add: batch_obs_def topic_path_eq)
  have to: "sum_list (map (published_to ?n) (?round r)) = batch_size r i" for r
    using sum_single [OF distinct_topics assms(2), of "batch_size r"] by (simp add: comp_def case_prod_unfold to_obs)
  have at_i: "topic = TOPICS ! i \<Longrightarrow> (j, topic) \<in> set (enumerate 0 TOPICS) \<Longrightarrow> j = i" for j topic
    using assms(2) distinct_topics by (auto simp: in_set_enumerate_eq nth_eq_iff_index_eq)
  have by_obs: "published_by ?n ?key (batch_obs self iter peer project r j topic) =
      published_to ?n (batch_obs self iter peer project r j topic)" if "(j, topic) \<in> set (enumerate 0 TOPICS)" for r j topic
    using at_i [OF _ that] by (auto simp: batch_obs_def topic_path_eq)
  have "map (published_by ?n ?key) (?round r) = map (published_to ?n) (?round r)" for r
    using by_obs by auto
  then have by_key: "sum_list (map (published_by ?n ?key) (?round r)) = batch_size r i" for r
    by (simp only: to)
  show "sum_list (map (published_to ?n) (demo_observations self iter up peer project n)) = demo_total n i"
    "sum_list (map (published_by ?n ?key) (demo_observations self iter up peer project n)) = demo_total n i"
    unfolding demo_rounds [OF assms(1)] by (rule sum_rounds, rule to, rule sum_rounds, rule by_key)
qed

text \<open>
  Claim C34. The monitor counts the demo exactly: whatever the times, and as long as the upstream accepts every call,
  after \<open>n\<close> rounds each topic of the generator shows the sum of its batches, whose size goes through 1 to 4,
  and all of it under the one connection that publishes to this topic.
\<close>

theorem demo_counted:
  assumes "\<forall>request. \<exists>response. up request = Inr response" and "i < length TOPICS"
    and "map fst es = demo_observations self iter up peer project n"
  shows "let topic = topic_at (fold_obs es (start_state cap)) (gen_topic_path project (TOPICS ! i)) in
    publish_count topic = of_nat (\<Sum>r < n. 1 + (r + i) mod 4) \<and>
    publisher_share topic (peer_key (peer (i mod PUBLISHERS))) = publish_count topic"
  using assms by (simp add: figures_published demo_published demo_total_def batch_size_def)

theorem demo_counted_witness:
  "publish_count (topic_at (fold_obs
      (map (\<lambda>ob. (ob, 0 :: instant)) (demo_observations \<lparr>payload_cap = 8\<rparr> hash_entries (\<lambda>_. Inr () :: unit + unit) (\<lambda>_. None) ''p'' 4))
      (start_state 2)) (gen_topic_path ''p'' ''logs.audit'')) = 10"
proof -
  let ?obs = "demo_observations \<lparr>payload_cap = 8\<rparr> hash_entries (\<lambda>_. Inr () :: unit + unit) (\<lambda>_. None) ''p'' 4"
  let ?es = "map (\<lambda>ob. (ob, 0 :: instant)) ?obs"
  have accepts: "\<forall>request. \<exists>response. (\<lambda>_. Inr () :: unit + unit) request = Inr response" by simp
  have topic: "(8 :: nat) < length TOPICS" "TOPICS ! 8 = ''logs.audit''" by (simp_all add: TOPICS_def)
  have events: "map fst ?es = ?obs" by (simp only: map_map comp_def fst_conv map_ident)
  have sum: "(\<Sum>r < 4. 1 + (r + 8) mod 4) = (10 :: nat)" by code_simp
  have "publish_count (topic_at (fold_obs ?es (start_state 2)) (gen_topic_path ''p'' (TOPICS ! 8))) =
      of_nat (\<Sum>r < 4. 1 + (r + 8) mod 4)"
    using demo_counted [OF accepts topic(1) events, of 2] unfolding Let_def by (rule conjunct1)
  then show ?thesis unfolding topic(2) sum by simp
qed

end
