(* ===== verification/Spec2Isabelle.thy ===== *)
theory Spec2Isabelle
  imports Remote_View Stream_Counting Stream_Buffers Restarts System_View Whole_Program Unit_Tests Demo
begin

text \<open>
  \<^bold>\<open>pub-sub-tui\<close>, a monitor for Google Pub/Sub traffic, as a library of definitions and theorems. File
  names are below \<^verbatim>\<open>src/\<close> of the repository.

  \<^bold>\<open>The program.\<close> \<^verbatim>\<open>pub-sub-monitor\<close> is a transparent proxy: clients talk to it instead of a Pub/Sub server,
  it forwards every call and emits an observation for each call that moved messages (gRPC in
  \<^verbatim>\<open>src/proxy/publisher.rs\<close> and \<^verbatim>\<open>src/proxy/subscriber.rs\<close>, REST in \<^verbatim>\<open>src/proxy/rest.rs\<close>). A poller
  (\<^verbatim>\<open>src/poller.rs\<close>) adds what the server lists. All observations go through one bounded channel to one task
  that owns the state (\<^verbatim>\<open>src/observe\<close>), folds them into it and publishes snapshots, which are streamed
  (\<^verbatim>\<open>src/monitor\<close>) to \<^verbatim>\<open>pub-sub-tui\<close>, a viewer that draws them (\<^verbatim>\<open>src/ui\<close>). \<^verbatim>\<open>pub-sub-loadgen\<close>
  (\<^verbatim>\<open>src/loadgen.rs\<close>) generates demo traffic.

  \<^bold>\<open>The theories\<close>, lowest first.
  \<^item> \<open>Prelude\<close>: machine integers with Rust's saturating operations, durations and instants (nanoseconds as
    \<open>nat\<close> and \<open>int\<close>), decimal and hexadecimal printing, splitting of lists, the interface of an event machine.
  \<^item> \<open>Ordered_Map\<close>: \<open>BTreeMap\<close> as sorted association lists, against the interface \<open>ordered_map\<close>.
  \<^item> \<open>Events\<close> (\<^verbatim>\<open>observe/events.rs\<close>): observations, peer keys, the non-blocking sink on a bounded channel
    (interface \<open>bounded_channel\<close>).
  \<^item> \<open>State\<close>, \<open>State_Facts\<close>, \<open>State_Props\<close> (\<^verbatim>\<open>observe/state.rs\<close>): the application state and every operation on it;
    its invariant \<open>state_ok\<close>, the abstract counters \<open>spec_obs\<close> it refines, the ring buffer, admin snapshots.
  \<^item> \<open>Observer\<close> (same file): the state-owning task as a step relation over channel, owned state and published
    snapshots; that snapshots show ever longer prefixes of what was accepted, and that the view catches up.
  \<^item> \<open>Convert\<close> (\<^verbatim>\<open>monitor/convert.rs\<close>): the wire format, both ways, and the round trip.
  \<^item> \<open>Client\<close> (\<^verbatim>\<open>monitor/server.rs\<close>, \<^verbatim>\<open>monitor/client.rs\<close>): the stream of snapshots and the supervised
    connection, a machine over the completions its task waits for.
  \<^item> \<open>System\<close>: the state-owning task, a connection of the state server with its own cursor on the watch
    channel, and any number of interfaces with their supervised connections, as one transition system; that
    what an interface shows only advances, and that it can always catch up.
  \<^item> \<open>Restarts\<close>: the same with a monitor that is started again any number of times; that an interface never
    mixes two incarnations nor goes back to a dead one, and finds the running one by itself.
  \<^item> \<open>Rpc\<close> (\<^verbatim>\<open>proxy/forward.rs\<close>): a forwarded call; the interface \<open>transparent_rpc\<close> every proxied unary call meets.
  \<^item> \<open>Publisher\<close>, \<open>Subscriber\<close>: the two gRPC services; StreamingPull is two pumps in one machine.
    \<open>Streaming_Facts\<close> and \<open>Stream_Counting\<close>: what one stream relays and emits, and what any interleaving of the
    observations of many streams does to the live figures. \<open>Stream_Buffers\<close>: the pumps with their two bounded
    channels as a transition system; that memory is bounded, a slow side holds back the other, and nothing wedges.
  \<^item> \<open>Rest\<close>: the REST relay; \<open>Proxy_Server\<close> (\<^verbatim>\<open>proxy/mod.rs\<close>): how one listener divides calls between the three.
  \<^item> \<open>Poller\<close>: the polling task, from its first attempt to connect; connecting may never succeed, so it is a
    partial function.
  \<^item> \<open>Cli\<close> (\<^verbatim>\<open>cli.rs\<close>, \<^verbatim>\<open>bin/pub-sub-monitor.rs\<close>): command lines, their defaults, the wiring of the monitor and
    how it ends. \<open>Logging\<close> (\<^verbatim>\<open>logging.rs\<close>): verbosity and destination of the log. \<open>Binaries\<close> (\<^verbatim>\<open>bin/pub-sub-tui.rs\<close>,
    \<^verbatim>\<open>bin/pub-sub-loadgen.rs\<close>): the two other processes.
  \<^item> \<open>Theme\<close>, \<open>Utf8\<close>, \<open>Message_View\<close>, \<open>Widgets\<close>, \<open>Topic_Tree\<close>, \<open>Topic_Tree_Facts\<close>, \<open>App\<close>, \<open>App_Facts\<close>, \<open>Ui_Loop\<close>
    (\<^verbatim>\<open>src/ui\<close>): styles and lines, decoding of UTF-8, the payload viewer, the panels, the topic tree with its
    trie, key handling and drawing, the loop around them and the thread that reads the keyboard.
  \<^item> \<open>Loadgen\<close>: the generator's topology, payloads, retries and consumers; \<open>Demo\<close>: its traffic as the monitor
    counts it.
  \<^item> \<open>Unit_Tests\<close>: the repository's unit tests, run on these definitions.
  \<^item> \<open>System_View\<close>: which topic names and states can reach an interface, and that ordinary traffic never crashes one.
  \<^item> \<open>Whole_Program\<close>: \<open>System\<close> driven by its traffic (the proxied calls, the streams, the polls); that every message
    an interface shows was published by a client in a call the upstream accepted.
  \<^item> \<open>Remote_View\<close> and this theory: the composition, from a publish or a stream at the proxy to what a remote
    interface shows, and what a full channel or a cut character does to it.

  \<^bold>\<open>Conventions.\<close> Strings are the bytes of their UTF-8 form (a \<open>char\<close> is a byte); \<open>u64\<close>, \<open>u32\<close> and \<open>u16\<close> are
  words, so additions wrap as in a release build. Lengths of data in memory (\<open>usize\<close>) are \<open>nat\<close>. An error is \<open>Inl\<close>
  of a sum or \<open>None\<close>; a panic is \<open>None\<close> of the outer option or an explicit state. Concurrency is the order
  of the steps of a machine: every interleaving is a run. Histories (\<open>accepted\<close>, \<open>folded\<close>, \<open>received\<close>, \<open>read_up\<close> and the
  like) record what happened and are read by no operation. No definition uses fuel: loops are structural
  recursions over what they consume, and the one that may run for ever is \<open>connect_with_retry\<close>.

  \<^bold>\<open>Parameters.\<close> Code outside the repository is an argument: the upstream server (its answer to a request), the
  JSON parser and printer, gunzip, base64, the HTTP client, the address and URI parsers, the tree widget's
  constructors and selection state (interface \<open>tree_widget\<close>), the iteration order of a hash map (interface
  \<open>map_iteration\<close>), the clocks (an instant per step), the ticker.

  \<^bold>\<open>Not modelled.\<close> The lines \<open>tracing\<close> writes, generated bindings (\<^verbatim>\<open>pb.rs\<close>, \<^verbatim>\<open>monitor/proto.rs\<close>), parsing of
  arguments and environment, sockets, TLS, and how the gRPC server enforces the compression and size limits it
  is given; the pixels: ratatui's layout and widgets, hence the two unit tests that look for the rows of an
  expanded tree; the keep-alive pings that make a silent connection fail (a failure is an event that may come
  at any time) and the wall-clock delays between retries.
\<close>

subsection \<open>The remote view\<close>


definition pumping_link :: link where
  "pumping_link = link_start\<lparr>link_connected := True, link_at := Pumping\<rparr>"

lemma pumping_link_simps [simp]: "link_at pumping_link = Pumping" "ui_alive pumping_link"
  by (simp_all add: pumping_link_def link_start_def)


text \<open>
  What a remote interface shows is never torn and never invented: if everything that arrives on
  its link was encoded from snapshots of one monitor, then whatever connections failed in between, it
  shows the empty state or the fold, in order, of a prefix of the observations that monitor accepted,
  with instants rebuilt from their ages.
\<close>

theorem remote_view_sound:
  assumes "observer_reachable cap ob"
    and "\<And>snapshot t. SnapshotArrived snapshot t \<in> set events \<Longrightarrow>
      \<exists>s sent. s \<in> set (snapshots ob) \<and> in_memory s \<and> snapshot = to_wire s sent"
  shows "let shown = link_state (fold (link_step lo) events link_start) in
     shown = default_state \<or>
     (\<exists>es sent later. prefix (map fst es) (accepted ob) \<and> sorted (map snd es) \<and>
        shown = (map_instants (rebuilt lo sent later) (view_of cap es))\<lparr>next_seq := 0\<rparr>)"
proof -
  let ?l = "fold (link_step lo) events link_start"
  have inv: "link_inv lo ?l" by (rule linking.reachable_inv)
  show ?thesis
  proof (cases "received ?l = []")
    case True
    with inv show ?thesis by (simp add: link_inv_def)
  next
    case False
    obtain snapshot later where last: "last (received ?l) = (snapshot, later)" by fastforce
    with last_in_set [OF False] have "(snapshot, later) \<in> set (received ?l)" by simp
    then have "SnapshotArrived snapshot later \<in> set events"
      using received_from_events [of lo events link_start] by (auto simp: link_start_def)
    from assms(2) [OF this] obtain s sent where s: "s \<in> set (snapshots ob)" "in_memory s"
      "snapshot = to_wire s sent" by blast
    have "maps_ok s" using snapshot_ok [OF assms(1) s(1)] by (auto intro: state_ok_maps_ok)
    then have shown: "link_state ?l = (map_instants (rebuilt lo sent later) s)\<lparr>next_seq := 0\<rparr>"
      using inv False s last by (simp add: link_inv_def wire_trip)
    from snapshot_is_view [OF assms(1) s(1)] show ?thesis
    proof
      assume "s = default_state"
      then show ?thesis by (simp add: shown default_state_trip)
    next
      assume "\<exists>es. prefix (map fst es) (accepted ob) \<and> sorted (map snd es) \<and> s = view_of cap es"
      then show ?thesis unfolding Let_def shown by blast
    qed
  qed
qed

theorem remote_view_sound_witness:
  "\<exists>es sent later. prefix (map fst es) [ConsumerOpen ''s'' None] \<and> sorted (map snd es) \<and>
     link_state (fold (link_step 0) [Dialed, Subscribed, SnapshotArrived (to_wire shown_view 7) 9] link_start) =
       (map_instants (rebuilt 0 sent later) (view_of 2 es))\<lparr>next_seq := 0\<rparr>"
proof -
  let ?events = "[Dialed, Subscribed, SnapshotArrived (to_wire shown_view 7) 9]"
  have mem: "in_memory shown_view"
    by (simp add: shown_view_def in_memory_def trim_recent_def start_state_def default_state_def)
  have "maps_ok shown_view"
    using snapshot_ok [OF one_shown_reachable, of shown_view] by (auto intro: state_ok_maps_ok simp: one_shown_simps)
  with mem have "link_state (fold (link_step 0) ?events link_start) = (map_instants (rebuilt 0 7 9) shown_view)\<lparr>next_seq := 0\<rparr>"
    by (simp add: link_start_def wire_trip)
  then have "connected_consumers (link_state (fold (link_step 0) ?events link_start)) = connected_consumers shown_view"
    by (simp add: connected_consumers_def)
  moreover have "connected_consumers shown_view = 1" "connected_consumers default_state = 0"
    by (simp_all add: shown_view_def connected_consumers_def start_state_def state_defs bt_upsert_def)
  ultimately have "link_state (fold (link_step 0) ?events link_start) \<noteq> default_state" by auto
  moreover have "SnapshotArrived snapshot t \<in> set ?events \<Longrightarrow>
      \<exists>s sent. s \<in> set (snapshots one_shown) \<and> in_memory s \<and> snapshot = to_wire s sent" for snapshot t
    using mem by (auto simp: one_shown_simps)
  ultimately show ?thesis
    using remote_view_sound [OF one_shown_reachable, of ?events 0] unfolding Let_def one_shown_simps by blast
qed
subsection \<open>From a publisher to the screen\<close>

lemma observer_steps_reachable:
  "(observer_step cap)\<^sup>*\<^sup>* ob ob' \<Longrightarrow> observer_reachable cap ob \<Longrightarrow> observer_reachable cap ob'"
  by (induction rule: rtranclp_induct) (auto intro: observer_reachable.step)


definition sample_publish :: "PublishRequest grpc_request" where
  "sample_publish = \<lparr>rq_message = \<lparr>pub_topic = ''t'', pub_messages =
       [\<lparr>msg_data = [1, 2], msg_attributes = Mapping.empty, msg_ordering_key = ''''\<rparr>]\<rparr>,
     rq_metadata = [], rq_remote_addr = None\<rparr>"

definition default_proxy :: "string proxy_server" where
  "default_proxy = the (serve (\<lambda>_. True) ''0.0.0.0:8681'' ''localhost:8085'' (64 * 1024))"

definition default_monitor :: "string monitor" where
  "default_monitor = projr (monitor_main Some (\<lambda>_. True) monitor_defaults 0)"


subsection \<open>Live consumers, from the streams to the screen\<close>

lemma subscription_at_view: "subscription_at (view_of cap es) sub = subscription_at (fold_obs es (start_state cap)) sub"
  by (simp add: view_of_def subscription_at_def)




definition flooded :: "nat \<Rightarrow> observer" where
  "flooded n = (produce (ConsumerOpen ''s'' None) ^^ n) (observer_start 2 0)"

lemma flooded:
  "n \<le> 8192 \<Longrightarrow> observer_reachable 2 (flooded n) \<and> accepted (flooded n) = replicate n (ConsumerOpen ''s'' None) \<and>
     ch_queue (chan (flooded n)) = replicate n (ConsumerOpen ''s'' None) \<and> phase_of (flooded n) = Waiting \<and>
     readers (flooded n) = 1 \<and> ch_receiver_alive (chan (flooded n)) \<and> ch_capacity (chan (flooded n)) = 8192"
proof (induction n)
  case 0
  show ?case by (simp add: flooded_def observer_reachable.start) (simp add: observer_start_def channel_new_def)
next
  case (Suc n)
  have step: "flooded (Suc n) = produce (ConsumerOpen ''s'' None) (flooded n)" by (simp add: flooded_def)
  have "observer_reachable 2 (flooded (Suc n))"
    unfolding step using Suc by (intro observer_reachable.step [OF _ observer_step.emit]) simp
  with Suc show ?case by (simp add: step produce_def try_send_def replicate_append_same)
qed


subsection \<open>A character cut in two\<close>

text \<open>A payload of \<open>n\<close> accented letters, each two bytes long in UTF-8.\<close>

definition accents :: "nat \<Rightarrow> bytes" where
  "accents n = concat (replicate n [0xC3, 0xA9])"

lemma accents_Suc [simp]: "accents 0 = []" "accents (Suc n) = 0xC3 # 0xA9 # accents n"
  by (simp_all add: accents_def)

lemma length_accents [simp]: "length (accents n) = 2 * n"
  by (induction n) simp_all

lemma decode_accents:
  "utf8_decode (map unat (accents n)) = Some (replicate n 0xE9)"
  "utf8_decode (map unat (accents n @ [0xC3])) = None"
  by (induction n) (simp_all add: continuation_def)

lemma take_accents:
  "take cap (accents n) = (if 2 * n \<le> cap then accents n else accents (cap div 2) @ (if odd cap then [0xC3] else []))"
proof (induction n arbitrary: cap)
  case (Suc n)
  show ?case
  proof (cases cap)
    case (Suc c)
    then show ?thesis using Suc.IH [of "c - 1"] by (cases c) auto
  qed simp
qed simp

lemma printable_accents: "printable (replicate n 0xE9)"
  by (induction n) (simp_all add: printable_def is_control_def)

text \<open>
  The payload cap counts bytes, not characters: accented text captured under a cap that falls
  inside a character is shown as a hex dump, and as text under every other cap.
\<close>

theorem cut_character_hides_text:
  assumes "0 < cap" and "0 < n"
    and "pretty (pm_data (capture \<lparr>payload_cap = cap\<rparr> iter
      \<lparr>msg_data = accents n, msg_attributes = attrs, msg_ordering_key = key\<rparr>)) = None"
  shows "rendered_label (render_body pretty (pm_data (capture \<lparr>payload_cap = cap\<rparr> iter
      \<lparr>msg_data = accents n, msg_attributes = attrs, msg_ordering_key = key\<rparr>))) =
    (if cap < 2 * n \<and> odd cap then ''hex'' else ''text'')"
proof -
  let ?data = "take cap (accents n)"
  have data: "pm_data (capture \<lparr>payload_cap = cap\<rparr> iter
      \<lparr>msg_data = accents n, msg_attributes = attrs, msg_ordering_key = key\<rparr>) = ?data"
    by (simp add: capture_def Let_def min_def)
  have "?data \<noteq> []" using assms(1,2) by (cases n) auto
  moreover have "as_json pretty ?data = None" using assms(3) by (simp add: data as_json_def)
  moreover have "as_text ?data = None \<longleftrightarrow> cap < 2 * n \<and> odd cap"
    using decode_accents [unfolded map_append]
    by (auto simp: as_text_def take_accents printable_accents)
  ultimately show ?thesis unfolding data by (auto simp: render_body_def)
qed

theorem cut_character_hides_text_witness:
  "rendered_label (render_body (\<lambda>_. None) (pm_data (capture \<lparr>payload_cap = 3\<rparr> hash_entries
     \<lparr>msg_data = accents 2, msg_attributes = Mapping.empty, msg_ordering_key = ''''\<rparr>))) = ''hex''"
  using cut_character_hides_text [of 3 2 "\<lambda>_. None" hash_entries Mapping.empty "''''"] by simp

end
